theory Spec2Isabelle
  imports Main
begin

section \<open>Data model (src/types/index.ts)\<close>

datatype FeedbackType = Bug | Feature | Design

datatype FeedbackPriority = Low | Medium | High | Critical

text \<open>
  The context is an opaque, serialisable bag of attributes; the core never looks inside.
\<close>

type_synonym FeedbackContext = "(string \<times> string) list"

record FeedbackSubmission =
  fb_type :: FeedbackType
  priority :: FeedbackPriority
  title :: string
  description :: string
  submitter_name :: "string option"
  submitter_email :: "string option"
  widget_version :: "string option"
  fb_context :: "FeedbackContext option"

text \<open>
  \<open>QueuedSubmission\<close>: the field \<open>id\<close> of the source is \<open>item_id\<close> here
  (\<open>id\<close> is the identity function of HOL).
\<close>

record QueuedSubmission =
  item_id :: string
  submission :: FeedbackSubmission
  screenshotUri :: "string option"
  createdAt :: nat
  retryCount :: int

record SubmissionResponse =
  success :: bool
  feedback_id :: "string option"
  error :: "string option"

text \<open>
  A thrown JavaScript value: an \<open>Error\<close> object with its message, or any other value
  with its \<open>String(...)\<close> rendering.
\<close>

datatype thrown = Error string | NonError string

section \<open>AsyncStorage under the single key \<open>@feedback_widget_queue\<close>\<close>

text \<open>
  What the key holds: nothing, a string that \<open>JSON.parse\<close> rejects (or the empty string),
  or the serialisation of a queue. The platform may reject a call: \<open>getItem_faults\<close> and
  \<open>setItem_faults\<close> script the outcomes of the coming calls of each kind (\<open>Some e\<close>: the
  call rejects with \<open>e\<close>); once a script is used up every call succeeds. A rejected
  \<open>setItem\<close> leaves the stored value as it was.
\<close>

datatype stored = Missing | Unparsable | Json "QueuedSubmission list"

record AsyncStorage =
  entry :: stored
  getItem_faults :: "thrown option list"
  setItem_faults :: "thrown option list"

definition getItem :: "AsyncStorage \<Rightarrow> AsyncStorage \<times> (thrown + stored)" where
  "getItem s =
     (s\<lparr>getItem_faults := tl (getItem_faults s)\<rparr>,
      case getItem_faults s of
        Some e # later \<Rightarrow> Inl e
      | _ \<Rightarrow> Inr (entry s))"

definition setItem :: "stored \<Rightarrow> AsyncStorage \<Rightarrow> AsyncStorage \<times> (thrown + unit)" where
  "setItem v s =
     (case setItem_faults s of
        Some e # later \<Rightarrow> (s\<lparr>setItem_faults := later\<rparr>, Inl e)
      | _ \<Rightarrow> (s\<lparr>entry := v, setItem_faults := tl (setItem_faults s)\<rparr>, Inr ()))"

section \<open>Persistent queue store (src/core/offline-queue.ts)\<close>

text \<open>\<open>getQueue\<close>: a rejected read, a missing value and an unparsable value all give \<open>[]\<close>.\<close>

definition getQueue :: "AsyncStorage \<Rightarrow> AsyncStorage \<times> QueuedSubmission list" where
  "getQueue s =
     (case getItem s of
        (s', Inl e) \<Rightarrow> (s', [])
      | (s', Inr Missing) \<Rightarrow> (s', [])
      | (s', Inr Unparsable) \<Rightarrow> (s', [])
      | (s', Inr (Json queue)) \<Rightarrow> (s', queue))"

definition saveQueue :: "QueuedSubmission list \<Rightarrow> AsyncStorage \<Rightarrow> AsyncStorage \<times> (thrown + unit)" where
  "saveQueue queue s = setItem (Json queue) s"

definition getPending :: "AsyncStorage \<Rightarrow> AsyncStorage \<times> QueuedSubmission list" where
  "getPending s = getQueue s"

definition getPendingCount :: "AsyncStorage \<Rightarrow> AsyncStorage \<times> nat" where
  "getPendingCount s = (case getQueue s of (s', queue) \<Rightarrow> (s', length queue))"

text \<open>
  \<open>enqueue\<close> reads the clock twice and draws one random number. \<open>math_random\<close> is the text
  \<open>Math.random().toString(36)\<close>, of which \<open>substring(2, 9)\<close> keeps at most seven digits.
\<close>

record draws =
  date_now_id :: nat
  math_random :: string
  date_now_created :: nat

definition digit_char :: "nat \<Rightarrow> char" where
  "digit_char n = char_of (48 + n)"

function string_of_nat :: "nat \<Rightarrow> string" where
  "string_of_nat n =
     (if n < 10 then [digit_char n] else string_of_nat (n div 10) @ [digit_char (n mod 10)])"
  by pat_completeness auto
termination
  by (relation "measure (\<lambda>n. n)") auto

declare string_of_nat.simps [simp del]

definition substring :: "nat \<Rightarrow> nat \<Rightarrow> string \<Rightarrow> string" where
  "substring a b s = take (b - a) (drop a s)"

definition new_id :: "draws \<Rightarrow> string" where
  "new_id d = string_of_nat (date_now_id d) @ ''-'' @ substring 2 9 (math_random d)"

text \<open>The record \<open>enqueue\<close> builds: the partial record, stamped with id, time and count 0.\<close>

definition queuedItem :: "draws \<Rightarrow> FeedbackSubmission \<Rightarrow> string option \<Rightarrow> QueuedSubmission" where
  "queuedItem d sub shot =
     \<lparr>item_id = new_id d, submission = sub, screenshotUri = shot,
      createdAt = date_now_created d, retryCount = 0\<rparr>"

definition enqueue ::
  "draws \<Rightarrow> FeedbackSubmission \<Rightarrow> string option \<Rightarrow> AsyncStorage \<Rightarrow> AsyncStorage \<times> (thrown + string)" where
  "enqueue d sub shot s =
     (case getQueue s of
        (s1, queue) \<Rightarrow>
          (case saveQueue (queue @ [queuedItem d sub shot]) s1 of
             (s2, Inl e) \<Rightarrow> (s2, Inl e)
           | (s2, Inr u) \<Rightarrow> (s2, Inr (item_id (queuedItem d sub shot)))))"

definition remove :: "string \<Rightarrow> AsyncStorage \<Rightarrow> AsyncStorage \<times> (thrown + unit)" where
  "remove ident s =
     (case getQueue s of
        (s1, queue) \<Rightarrow> saveQueue (filter (\<lambda>item. item_id item \<noteq> ident) queue) s1)"

text \<open>\<open>findIndex\<close>: \<open>None\<close> stands for the \<open>-1\<close> of JavaScript.\<close>

fun findIndex :: "('a \<Rightarrow> bool) \<Rightarrow> 'a list \<Rightarrow> nat option" where
  "findIndex P [] = None"
| "findIndex P (x # xs) = (if P x then Some 0 else map_option Suc (findIndex P xs))"

definition update :: "QueuedSubmission \<Rightarrow> AsyncStorage \<Rightarrow> AsyncStorage \<times> (thrown + unit)" where
  "update item s =
     (case getQueue s of
        (s1, queue) \<Rightarrow>
          (case findIndex (\<lambda>q. item_id q = item_id item) queue of
             None \<Rightarrow> (s1, Inr ())
           | Some index \<Rightarrow> saveQueue (queue[index := item]) s1))"

section \<open>Sync engine (OfflineQueue.sync)\<close>

text \<open>
  The delivery function resolves to a boolean or rejects. The observer callbacks of the
  configuration are optional and return nothing: the model records each point where one
  is invoked, in order, in \<open>calls\<close>, together with each invocation of the delivery
  function (\<open>SyncCallback\<close>). Observers are taken not to throw. The 100 ms pause between
  records has no effect on the state and is left out.
\<close>

datatype delivery = Resolves bool | Rejects thrown

datatype event =
    OnSyncStart
  | OnSyncComplete nat nat
  | OnSubmissionSynced string
  | OnSubmissionFailed string string
  | SyncCallback QueuedSubmission

record counts =
  succeeded :: nat
  failed :: nat

record OfflineQueue =
  maxRetries :: "int option"
  syncCallback :: "(QueuedSubmission \<Rightarrow> delivery) option"
  syncInProgress :: bool
  isConnected :: bool
  unsubscribeNetInfo :: bool
  appStateSubscription :: bool
  asyncStorage :: AsyncStorage
  calls :: "event list"

definition emit :: "event \<Rightarrow> OfflineQueue \<Rightarrow> OfflineQueue" where
  "emit e q = q\<lparr>calls := calls q @ [e]\<rparr>"

text \<open>\<open>this.config.maxRetries || 3\<close>: undefined and 0 both give 3.\<close>

definition effectiveMaxRetries :: "OfflineQueue \<Rightarrow> int" where
  "effectiveMaxRetries q =
     (case maxRetries q of None \<Rightarrow> 3 | Some n \<Rightarrow> if n = 0 then 3 else n)"

definition message_of :: "thrown \<Rightarrow> string" where
  "message_of e = (case e of Error m \<Rightarrow> m | NonError v \<Rightarrow> ''Unknown error'')"

datatype tally = Succeeded | Failed

text \<open>
  The body of the inner \<open>try\<close>: the delivery, then \<open>remove\<close> on success or
  \<open>retryCount++\<close> and \<open>update\<close> on a returned failure. It returns the record as the
  loop variable holds it afterwards, since the \<open>catch\<close> block increments that same object.
\<close>

definition try_delivery ::
  "(QueuedSubmission \<Rightarrow> delivery) \<Rightarrow> QueuedSubmission \<Rightarrow> OfflineQueue
     \<Rightarrow> OfflineQueue \<times> QueuedSubmission \<times> (thrown + tally)" where
  "try_delivery cb item q =
     (let q1 = emit (SyncCallback item) q in
      case cb item of
        Rejects e \<Rightarrow> (q1, item, Inl e)
      | Resolves True \<Rightarrow>
          (case remove (item_id item) (asyncStorage q1) of
             (s', Inl e) \<Rightarrow> (q1\<lparr>asyncStorage := s'\<rparr>, item, Inl e)
           | (s', Inr u) \<Rightarrow>
               (emit (OnSubmissionSynced (item_id item)) (q1\<lparr>asyncStorage := s'\<rparr>), item,
                Inr Succeeded))
      | Resolves False \<Rightarrow>
          (let item' = item\<lparr>retryCount := retryCount item + 1\<rparr> in
           case update item' (asyncStorage q1) of
             (s', Inl e) \<Rightarrow> (q1\<lparr>asyncStorage := s'\<rparr>, item', Inl e)
           | (s', Inr u) \<Rightarrow> (q1\<lparr>asyncStorage := s'\<rparr>, item', Inr Failed)))"

text \<open>The \<open>catch\<close> block; an exception of its own \<open>update\<close> leaves the loop.\<close>

definition catch_delivery ::
  "thrown \<Rightarrow> QueuedSubmission \<Rightarrow> OfflineQueue \<Rightarrow> OfflineQueue \<times> (thrown + tally)" where
  "catch_delivery e item q =
     (let item' = item\<lparr>retryCount := retryCount item + 1\<rparr> in
      case update item' (asyncStorage q) of
        (s', Inl e') \<Rightarrow> (q\<lparr>asyncStorage := s'\<rparr>, Inl e')
      | (s', Inr u) \<Rightarrow>
          (emit (OnSubmissionFailed (item_id item') (message_of e)) (q\<lparr>asyncStorage := s'\<rparr>),
           Inr Failed))"

text \<open>One iteration of the \<open>for\<close> loop.\<close>

definition sync_item ::
  "(QueuedSubmission \<Rightarrow> delivery) \<Rightarrow> QueuedSubmission \<Rightarrow> OfflineQueue
     \<Rightarrow> OfflineQueue \<times> (thrown + tally)" where
  "sync_item cb item q =
     (if retryCount item \<ge> effectiveMaxRetries q then
        (let q1 = emit (OnSubmissionFailed (item_id item) ''Max retries exceeded'') q in
         case remove (item_id item) (asyncStorage q1) of
           (s', Inl e) \<Rightarrow> (q1\<lparr>asyncStorage := s'\<rparr>, Inl e)
         | (s', Inr u) \<Rightarrow> (q1\<lparr>asyncStorage := s'\<rparr>, Inr Failed))
      else
        (case try_delivery cb item q of
           (q1, item1, Inr t) \<Rightarrow> (q1, Inr t)
         | (q1, item1, Inl e) \<Rightarrow> catch_delivery e item1 q1))"

text \<open>The loop over the snapshot, with the two counters; it stops at an exception.\<close>

fun sync_loop ::
  "(QueuedSubmission \<Rightarrow> delivery) \<Rightarrow> QueuedSubmission list \<Rightarrow> OfflineQueue \<Rightarrow> counts
     \<Rightarrow> OfflineQueue \<times> counts \<times> thrown option" where
  "sync_loop cb [] q c = (q, c, None)"
| "sync_loop cb (item # rest) q c =
     (case sync_item cb item q of
        (q', Inl e) \<Rightarrow> (q', c, Some e)
      | (q', Inr Succeeded) \<Rightarrow> sync_loop cb rest q' (c\<lparr>succeeded := succeeded c + 1\<rparr>)
      | (q', Inr Failed) \<Rightarrow> sync_loop cb rest q' (c\<lparr>failed := failed c + 1\<rparr>))"

text \<open>
  \<open>sync\<close>: the guard, then the pass. The \<open>finally\<close> block clears the flag and signals
  completion whether or not the loop threw; an exception of the loop is then rethrown
  (\<open>Inl\<close>).
\<close>

definition sync :: "OfflineQueue \<Rightarrow> OfflineQueue \<times> (thrown + counts)" where
  "sync q =
     (if \<not> isConnected q \<or> syncInProgress q \<or> syncCallback q = None then
        (q, Inr \<lparr>succeeded = 0, failed = 0\<rparr>)
      else
        (case syncCallback q of
           None \<Rightarrow> (q, Inr \<lparr>succeeded = 0, failed = 0\<rparr>)
         | Some cb \<Rightarrow>
             (let q1 = emit OnSyncStart (q\<lparr>syncInProgress := True\<rparr>) in
              case getPending (asyncStorage q1) of
                (s1, pending) \<Rightarrow>
                  (case sync_loop cb pending (q1\<lparr>asyncStorage := s1\<rparr>)
                          \<lparr>succeeded = 0, failed = 0\<rparr> of
                     (q2, c, ex) \<Rightarrow>
                       (emit (OnSyncComplete (succeeded c) (failed c))
                          (q2\<lparr>syncInProgress := False\<rparr>),
                        case ex of None \<Rightarrow> Inr c | Some e \<Rightarrow> Inl e)))))"

text \<open>The remaining methods of \<open>OfflineQueue\<close>, on the object that owns the storage.\<close>

definition new_OfflineQueue :: "int option \<Rightarrow> AsyncStorage \<Rightarrow> OfflineQueue" where
  "new_OfflineQueue configured s =
     \<lparr>maxRetries = (case configured of None \<Rightarrow> Some 3 | Some n \<Rightarrow> Some n),
      syncCallback = None, syncInProgress = False, isConnected = True,
      unsubscribeNetInfo = False, appStateSubscription = False,
      asyncStorage = s, calls = []\<rparr>"

definition setSyncCallback :: "(QueuedSubmission \<Rightarrow> delivery) \<Rightarrow> OfflineQueue \<Rightarrow> OfflineQueue" where
  "setSyncCallback cb q = q\<lparr>syncCallback := Some cb\<rparr>"

definition getOnlineStatus :: "OfflineQueue \<Rightarrow> bool" where
  "getOnlineStatus q = isConnected q"

definition on_storage ::
  "(AsyncStorage \<Rightarrow> AsyncStorage \<times> 'a) \<Rightarrow> OfflineQueue \<Rightarrow> OfflineQueue \<times> 'a" where
  "on_storage f q = (case f (asyncStorage q) of (s', r) \<Rightarrow> (q\<lparr>asyncStorage := s'\<rparr>, r))"

section \<open>Connectivity monitor (init, the two handlers, destroy)\<close>

text \<open>
  The platform side is not code of the repository: NetInfo and AppState deliver an event
  to a handler only while it is subscribed, and a timer set with \<open>setTimeout\<close> fires once
  unless it is cleared. \<open>netInfo_listening\<close> and \<open>appState_listening\<close> say whether the
  handlers are subscribed, \<open>timers\<close> counts the pending \<open>setTimeout(() => this.sync(), 2000)\<close>
  callbacks, and \<open>sync_requests\<close> records every call of \<open>sync()\<close> the monitor makes, by
  origin. The handlers do not await \<open>sync()\<close>; the model runs it to its end in place and
  drops its result.
\<close>

datatype AppStateStatus = Active | Background | Inactive

datatype origin = FromInit | FromForeground | FromSettleTimer

record runtime =
  offline_queue :: OfflineQueue
  netInfo_listening :: bool
  appState_listening :: bool
  timers :: nat
  sync_requests :: "origin list"

definition request_sync :: "origin \<Rightarrow> runtime \<Rightarrow> runtime" where
  "request_sync by_whom r =
     r\<lparr>offline_queue := fst (sync (offline_queue r)), sync_requests := sync_requests r @ [by_whom]\<rparr>"

text \<open>\<open>init\<close>: \<open>state.isConnected ?? true\<close>, both subscriptions, and a first pass if online.\<close>

definition init :: "bool option \<Rightarrow> runtime \<Rightarrow> runtime" where
  "init fetched r =
     (let q = (offline_queue r)\<lparr>isConnected := (case fetched of None \<Rightarrow> True | Some b \<Rightarrow> b),
                        unsubscribeNetInfo := True, appStateSubscription := True\<rparr>;
          r1 = r\<lparr>offline_queue := q, netInfo_listening := True, appState_listening := True\<rparr>
      in if isConnected q then request_sync FromInit r1 else r1)"

text \<open>\<open>handleNetworkChange\<close>: \<open>state.isConnected ?? false\<close>; back online sets the timer.\<close>

definition handleNetworkChange :: "bool option \<Rightarrow> runtime \<Rightarrow> runtime" where
  "handleNetworkChange reported r =
     (let wasOffline = \<not> isConnected (offline_queue r);
          q = (offline_queue r)\<lparr>isConnected := (case reported of None \<Rightarrow> False | Some b \<Rightarrow> b)\<rparr>;
          r1 = r\<lparr>offline_queue := q\<rparr>
      in if wasOffline \<and> isConnected q then r1\<lparr>timers := Suc (timers r1)\<rparr> else r1)"

definition handleAppStateChange :: "AppStateStatus \<Rightarrow> runtime \<Rightarrow> runtime" where
  "handleAppStateChange nextAppState r =
     (if nextAppState = Active \<and> isConnected (offline_queue r) then request_sync FromForeground r
      else r)"

text \<open>\<open>destroy\<close>: \<open>unsubscribeNetInfo?.()\<close> and \<open>appStateSubscription?.remove()\<close>, nothing else.\<close>

definition destroy :: "runtime \<Rightarrow> runtime" where
  "destroy r =
     (let r1 = (if unsubscribeNetInfo (offline_queue r) then r\<lparr>netInfo_listening := False\<rparr> else r)
      in if appStateSubscription (offline_queue r1) then r1\<lparr>appState_listening := False\<rparr> else r1)"

datatype occurrence =
    NetInfoChanged "bool option"
  | AppStateChanged AppStateStatus
  | TimerElapsed
  | Destroyed

fun dispatch :: "occurrence \<Rightarrow> runtime \<Rightarrow> runtime" where
  "dispatch (NetInfoChanged reported) r =
     (if netInfo_listening r then handleNetworkChange reported r else r)"
| "dispatch (AppStateChanged nextAppState) r =
     (if appState_listening r then handleAppStateChange nextAppState r else r)"
| "dispatch TimerElapsed r =
     (if timers r = 0 then r else request_sync FromSettleTimer (r\<lparr>timers := timers r - 1\<rparr>))"
| "dispatch Destroyed r = destroy r"

fun run :: "occurrence list \<Rightarrow> runtime \<Rightarrow> runtime" where
  "run [] r = r"
| "run (ev # evs) r = run evs (dispatch ev r)"

section \<open>Widget facade (core/widget.ts)\<close>

definition SDK_VERSION :: string where
  "SDK_VERSION = ''0.1.0''"

text \<open>\<open>toLowerCase\<close> on the ASCII letters; other characters are left as they are.\<close>

definition toLowerCase_char :: "char \<Rightarrow> char" where
  "toLowerCase_char c =
     (let n = (of_char c :: nat) in if 65 \<le> n \<and> n \<le> 90 then char_of (n + 32) else c)"

definition toLowerCase :: "string \<Rightarrow> string" where
  "toLowerCase s = map toLowerCase_char s"

fun startsWith :: "string \<Rightarrow> string \<Rightarrow> bool" where
  "startsWith s [] = True"
| "startsWith [] (c # cs) = False"
| "startsWith (d # ds) (c # cs) = (d = c \<and> startsWith ds cs)"

text \<open>\<open>includes_str s e\<close> is \<open>s.includes(e)\<close>.\<close>

fun includes_str :: "string \<Rightarrow> string \<Rightarrow> bool" where
  "includes_str [] e = (e = [])"
| "includes_str (c # cs) e = (startsWith (c # cs) e \<or> includes_str cs e)"

definition networkErrors :: "string list" where
  "networkErrors = [''network'', ''fetch'', ''timeout'', ''offline'', ''ECONNREFUSED'']"

text \<open>A string is truthy when it is present and not empty.\<close>

definition truthy :: "string option \<Rightarrow> bool" where
  "truthy s = (case s of None \<Rightarrow> False | Some v \<Rightarrow> v \<noteq> [])"

definition isNetworkError :: "string option \<Rightarrow> bool" where
  "isNetworkError err =
     (case err of
        None \<Rightarrow> False
      | Some e \<Rightarrow>
          if e = [] then False
          else (let lower = toLowerCase e in list_ex (\<lambda>m. includes_str lower m) networkErrors))"

text \<open>
  The transport and the context probe are collaborators: one call of \<open>submitFeedback\<close>
  is given what they answer (\<open>getContext\<close> is called a second time in the \<open>catch\<close> block)
  and the clock readings and random number \<open>enqueue\<close> would draw. The lifecycle callbacks
  of the configuration and the screenshot upload are recorded in \<open>notified\<close>; the upload's
  own result is only logged by the source.
\<close>

datatype transport_result = Responds SubmissionResponse | Throws thrown

datatype widget_event =
    OnSubmitStart
  | OnSubmitSuccess "string option"
  | OnSubmitError string
  | UploadScreenshot string string

record feedback =
  given_type :: FeedbackType
  given_priority :: FeedbackPriority
  given_title :: string
  given_description :: string
  given_screenshotUri :: "string option"

record submit_env =
  getContext_first :: FeedbackContext
  getContext_second :: FeedbackContext
  transport_submitFeedback :: "FeedbackSubmission \<Rightarrow> transport_result"
  enqueue_draws :: draws

record FeedbackWidget =
  user_name :: "string option"
  user_email :: "string option"
  offlineQueue :: OfflineQueue
  isSubmitting :: bool
  notified :: "widget_event list"

definition notify :: "widget_event \<Rightarrow> FeedbackWidget \<Rightarrow> FeedbackWidget" where
  "notify e w = w\<lparr>notified := notified w @ [e]\<rparr>"

definition queueSubmission ::
  "draws \<Rightarrow> FeedbackSubmission \<Rightarrow> string option \<Rightarrow> FeedbackWidget
     \<Rightarrow> FeedbackWidget \<times> SubmissionResponse" where
  "queueSubmission d sub shot w =
     (case on_storage (enqueue d sub shot) (offlineQueue w) of
        (q', Inr ident) \<Rightarrow>
          (w\<lparr>offlineQueue := q'\<rparr>,
           \<lparr>success = True, feedback_id = Some (''offline-'' @ ident), error = None\<rparr>)
      | (q', Inl e) \<Rightarrow>
          (w\<lparr>offlineQueue := q'\<rparr>,
           \<lparr>success = False, feedback_id = None,
            error = Some (case e of Error m \<Rightarrow> m | NonError v \<Rightarrow> ''Failed to queue submission'')\<rparr>))"

text \<open>The \<open>try\<close> block of \<open>submitFeedback\<close>, up to the transport's answer.\<close>

definition build_submission :: "FeedbackContext \<Rightarrow> feedback \<Rightarrow> FeedbackWidget \<Rightarrow> FeedbackSubmission" where
  "build_submission ctx fb w =
     \<lparr>fb_type = given_type fb, priority = given_priority fb, title = given_title fb,
      description = given_description fb,
      submitter_name = (if truthy (user_name w) then user_name w else None),
      submitter_email = (if truthy (user_email w) then user_email w else None),
      widget_version = Some SDK_VERSION, fb_context = Some ctx\<rparr>"

definition after_response ::
  "submit_env \<Rightarrow> feedback \<Rightarrow> FeedbackSubmission \<Rightarrow> SubmissionResponse \<Rightarrow> FeedbackWidget
     \<Rightarrow> FeedbackWidget \<times> SubmissionResponse" where
  "after_response env fb sub response w =
     (if \<not> success response then
        (if isNetworkError (error response) then
           queueSubmission (enqueue_draws env) sub (given_screenshotUri fb) w
         else
           (notify (OnSubmitError (case error response of
                                     None \<Rightarrow> ''Submission failed''
                                   | Some m \<Rightarrow> if m = [] then ''Submission failed'' else m)) w,
            response))
      else
        (let w1 = (case (given_screenshotUri fb, feedback_id response) of
                     (Some uri, Some fid) \<Rightarrow>
                       if uri \<noteq> [] \<and> fid \<noteq> [] then notify (UploadScreenshot fid uri) w else w
                   | _ \<Rightarrow> w)
         in (notify (OnSubmitSuccess (feedback_id response)) w1, response)))"

text \<open>The \<open>catch\<close> block: the same classification on the thrown error's message.\<close>

definition after_throw ::
  "submit_env \<Rightarrow> feedback \<Rightarrow> thrown \<Rightarrow> FeedbackWidget \<Rightarrow> FeedbackWidget \<times> SubmissionResponse" where
  "after_throw env fb e w =
     (let msg = (case e of Error m \<Rightarrow> m | NonError v \<Rightarrow> v) in
      if isNetworkError (Some msg) then
        queueSubmission (enqueue_draws env)
          \<lparr>fb_type = given_type fb, priority = given_priority fb, title = given_title fb,
           description = given_description fb, submitter_name = None, submitter_email = None,
           widget_version = Some SDK_VERSION, fb_context = Some (getContext_second env)\<rparr>
          (given_screenshotUri fb) w
      else
        (notify (OnSubmitError msg) w, \<lparr>success = False, feedback_id = None, error = Some msg\<rparr>))"

definition submitFeedback ::
  "submit_env \<Rightarrow> feedback \<Rightarrow> FeedbackWidget \<Rightarrow> FeedbackWidget \<times> SubmissionResponse" where
  "submitFeedback env fb w =
     (if isSubmitting w then
        (w, \<lparr>success = False, feedback_id = None, error = Some ''Submission already in progress''\<rparr>)
      else
        (let w1 = notify OnSubmitStart (w\<lparr>isSubmitting := True\<rparr>);
             sub = build_submission (getContext_first env) fb w1;
             (w2, response) =
               (if \<not> getOnlineStatus (offlineQueue w1) then
                  queueSubmission (enqueue_draws env) sub (given_screenshotUri fb) w1
                else
                  (case transport_submitFeedback env sub of
                     Responds response \<Rightarrow> after_response env fb sub response w1
                   | Throws e \<Rightarrow> after_throw env fb e w1))
         in (w2\<lparr>isSubmitting := False\<rparr>, response)))"

text \<open>
  The static operations, on \<open>FeedbackWidget.instance\<close> (\<open>None\<close> before \<open>init\<close> and after
  \<open>destroy\<close>). They carry the prefix \<open>widget_\<close> where the queue has a method of the same name.
\<close>

definition submit ::
  "submit_env \<Rightarrow> feedback \<Rightarrow> FeedbackWidget option \<Rightarrow> FeedbackWidget option \<times> SubmissionResponse" where
  "submit env fb instance =
     (case instance of
        None \<Rightarrow>
          (None, \<lparr>success = False, feedback_id = None, error = Some ''FeedbackWidget not initialized''\<rparr>)
      | Some w \<Rightarrow> (case submitFeedback env fb w of (w', response) \<Rightarrow> (Some w', response)))"

definition widget_getPendingCount :: "FeedbackWidget option \<Rightarrow> FeedbackWidget option \<times> nat" where
  "widget_getPendingCount instance =
     (case instance of
        None \<Rightarrow> (None, 0)
      | Some w \<Rightarrow>
          (case on_storage getPendingCount (offlineQueue w) of
             (q', n) \<Rightarrow> (Some (w\<lparr>offlineQueue := q'\<rparr>), n)))"

definition syncOffline :: "FeedbackWidget option \<Rightarrow> FeedbackWidget option \<times> (thrown + counts)" where
  "syncOffline instance =
     (case instance of
        None \<Rightarrow> (None, Inr \<lparr>succeeded = 0, failed = 0\<rparr>)
      | Some w \<Rightarrow> (case sync (offlineQueue w) of (q', r) \<Rightarrow> (Some (w\<lparr>offlineQueue := q'\<rparr>), r)))"

definition isOnline :: "FeedbackWidget option \<Rightarrow> bool" where
  "isOnline instance =
     (case instance of None \<Rightarrow> True | Some w \<Rightarrow> getOnlineStatus (offlineQueue w))"

section \<open>Notions used in the statements\<close>

text \<open>
  The queue a reader of the store sees, and the storage working: no scripted rejection
  is left for reads (\<open>reads_ok\<close>) or writes (\<open>writes_ok\<close>).
\<close>

definition contents :: "AsyncStorage \<Rightarrow> QueuedSubmission list" where
  "contents s = (case entry s of Json queue \<Rightarrow> queue | _ \<Rightarrow> [])"

definition reads_ok :: "AsyncStorage \<Rightarrow> bool" where
  "reads_ok s \<longleftrightarrow> list_all (\<lambda>f. f = None) (getItem_faults s)"

definition writes_ok :: "AsyncStorage \<Rightarrow> bool" where
  "writes_ok s \<longleftrightarrow> list_all (\<lambda>f. f = None) (setItem_faults s)"

definition reliable :: "AsyncStorage \<Rightarrow> bool" where
  "reliable s \<longleftrightarrow> reads_ok s \<and> writes_ok s"

definition pending :: "OfflineQueue \<Rightarrow> QueuedSubmission list" where
  "pending q = contents (asyncStorage q)"

text \<open>
  What one iteration of the loop does with a record \<open>x\<close> when the storage works and the
  ids in the queue are distinct, read off \<open>sync_item\<close> branch by branch and proved equal
  to it below (\<open>sync_item_reliable\<close>): what is left of \<open>x\<close> in the queue, how it is
  counted, and what is signalled. \<open>m\<close> is the effective maximum.
\<close>

definition left_in_queue ::
  "(QueuedSubmission \<Rightarrow> delivery) \<Rightarrow> int \<Rightarrow> QueuedSubmission \<Rightarrow> QueuedSubmission list" where
  "left_in_queue cb m x =
     (if retryCount x \<ge> m then []
      else (case cb x of
              Resolves True \<Rightarrow> []
            | _ \<Rightarrow> [x\<lparr>retryCount := retryCount x + 1\<rparr>]))"

definition tally_of :: "(QueuedSubmission \<Rightarrow> delivery) \<Rightarrow> int \<Rightarrow> QueuedSubmission \<Rightarrow> tally" where
  "tally_of cb m x =
     (if retryCount x \<ge> m then Failed
      else (case cb x of Resolves True \<Rightarrow> Succeeded | _ \<Rightarrow> Failed))"

definition events_of :: "(QueuedSubmission \<Rightarrow> delivery) \<Rightarrow> int \<Rightarrow> QueuedSubmission \<Rightarrow> event list" where
  "events_of cb m x =
     (if retryCount x \<ge> m then [OnSubmissionFailed (item_id x) ''Max retries exceeded'']
      else (case cb x of
              Resolves True \<Rightarrow> [SyncCallback x, OnSubmissionSynced (item_id x)]
            | Resolves False \<Rightarrow> [SyncCallback x]
            | Rejects e \<Rightarrow> [SyncCallback x, OnSubmissionFailed (item_id x) (message_of e)]))"

definition tallied ::
  "(QueuedSubmission \<Rightarrow> delivery) \<Rightarrow> int \<Rightarrow> QueuedSubmission list \<Rightarrow> counts \<Rightarrow> counts" where
  "tallied cb m xs c =
     c\<lparr>succeeded := succeeded c + length (filter (\<lambda>x. tally_of cb m x = Succeeded) xs),
       failed := failed c + length (filter (\<lambda>x. tally_of cb m x = Failed) xs)\<rparr>"

definition pass_counts ::
  "(QueuedSubmission \<Rightarrow> delivery) \<Rightarrow> int \<Rightarrow> QueuedSubmission list \<Rightarrow> counts" where
  "pass_counts cb m xs = tallied cb m xs \<lparr>succeeded = 0, failed = 0\<rparr>"

text \<open>What \<open>update\<close> writes back: the first record with the id of \<open>item\<close> replaced.\<close>

definition replace_first :: "QueuedSubmission \<Rightarrow> QueuedSubmission list \<Rightarrow> QueuedSubmission list" where
  "replace_first item xs =
     (case findIndex (\<lambda>q. item_id q = item_id item) xs of
        None \<Rightarrow> xs
      | Some index \<Rightarrow> xs[index := item])"

text \<open>Several calls in a row: \<open>enqueue\<close> for each request, and \<open>n\<close> passes of \<open>sync\<close>.\<close>

fun enqueue_all ::
  "(draws \<times> FeedbackSubmission \<times> string option) list \<Rightarrow> OfflineQueue \<Rightarrow> OfflineQueue" where
  "enqueue_all [] q = q"
| "enqueue_all ((d, sub, shot) # rest) q =
     enqueue_all rest (fst (on_storage (enqueue d sub shot) q))"

fun passes :: "nat \<Rightarrow> OfflineQueue \<Rightarrow> OfflineQueue" where
  "passes 0 q = q"
| "passes (Suc n) q = passes n (fst (sync q))"

text \<open>The records the delivery function was invoked on, in order.\<close>

fun deliveries :: "event list \<Rightarrow> QueuedSubmission list" where
  "deliveries [] = []"
| "deliveries (SyncCallback x # es) = x # deliveries es"
| "deliveries (e # es) = deliveries es"

text \<open>
  The queue can run a pass with the delivery function \<open>cb\<close>: it is online, no pass is
  in progress, \<open>cb\<close> is registered and the storage works.
\<close>

definition ready :: "(QueuedSubmission \<Rightarrow> delivery) \<Rightarrow> OfflineQueue \<Rightarrow> bool" where
  "ready cb q \<longleftrightarrow>
     isConnected q \<and> \<not> syncInProgress q \<and> syncCallback q = Some cb \<and> reliable (asyncStorage q)"

text \<open>What a pass signals for a record it delivers.\<close>

definition synced_events :: "QueuedSubmission \<Rightarrow> event list" where
  "synced_events x = [SyncCallback x, OnSubmissionSynced (item_id x)]"

text \<open>
  The states one call of \<open>sync()\<close> goes through before it resolves, where other code can
  run: an awaited storage operation, the delivery function, an observer. Within one
  iteration (\<open>item_states\<close>): the state in which the observer of an eviction runs, the
  state in which the delivery function runs, and the state after the \<open>try\<close> block. Over
  the loop (\<open>loop_states\<close>): the state before each iteration, the states within it and
  the state after it. \<open>flag_held_states\<close> are the states from the setting of the flag
  (line 136) to the start of the \<open>finally\<close> block. \<open>pass_states\<close> adds the state the
  \<open>finally\<close> block leaves: it has cleared the flag (line 180) and then calls
  \<open>onSyncComplete\<close> (line 181), so this last state is the one in which that observer
  runs, the call not having resolved yet; it is the state \<open>sync\<close> returns.
\<close>

definition item_states ::
  "(QueuedSubmission \<Rightarrow> delivery) \<Rightarrow> QueuedSubmission \<Rightarrow> OfflineQueue \<Rightarrow> OfflineQueue list" where
  "item_states cb item q =
     (if retryCount item \<ge> effectiveMaxRetries q then
        [emit (OnSubmissionFailed (item_id item) ''Max retries exceeded'') q]
      else
        emit (SyncCallback item) q #
        (case try_delivery cb item q of (q1, item1, r) \<Rightarrow> [q1]))"

fun loop_states ::
  "(QueuedSubmission \<Rightarrow> delivery) \<Rightarrow> QueuedSubmission list \<Rightarrow> OfflineQueue \<Rightarrow> OfflineQueue list" where
  "loop_states cb [] q = [q]"
| "loop_states cb (item # rest) q =
     q # item_states cb item q @
     (case sync_item cb item q of
        (q', Inl e) \<Rightarrow> [q']
      | (q', Inr t) \<Rightarrow> loop_states cb rest q')"

definition flag_held_states :: "OfflineQueue \<Rightarrow> OfflineQueue list" where
  "flag_held_states q =
     (if \<not> isConnected q \<or> syncInProgress q \<or> syncCallback q = None then []
      else
        (case syncCallback q of
           None \<Rightarrow> []
         | Some cb \<Rightarrow>
             (let q1 = emit OnSyncStart (q\<lparr>syncInProgress := True\<rparr>) in
              case getPending (asyncStorage q1) of
                (s1, snapshot) \<Rightarrow> q1 # loop_states cb snapshot (q1\<lparr>asyncStorage := s1\<rparr>))))"

definition pass_states :: "OfflineQueue \<Rightarrow> OfflineQueue list" where
  "pass_states q =
     (if \<not> isConnected q \<or> syncInProgress q \<or> syncCallback q = None then []
      else flag_held_states q @ [fst (sync q)])"

section \<open>Example states\<close>

definition sample_submission :: FeedbackSubmission where
  "sample_submission =
     \<lparr>fb_type = Bug, priority = High, title = ''App crashes on launch'',
      description = ''The app crashes when I open it'', submitter_name = None,
      submitter_email = None, widget_version = Some SDK_VERSION, fb_context = Some []\<rparr>"

definition sample_item :: "string \<Rightarrow> int \<Rightarrow> QueuedSubmission" where
  "sample_item ident n =
     \<lparr>item_id = ident, submission = sample_submission, screenshotUri = None,
      createdAt = 1700000000000, retryCount = n\<rparr>"

definition working_storage :: "QueuedSubmission list \<Rightarrow> AsyncStorage" where
  "working_storage xs = \<lparr>entry = Json xs, getItem_faults = [], setItem_faults = []\<rparr>"

definition always :: "delivery \<Rightarrow> QueuedSubmission \<Rightarrow> delivery" where
  "always outcome item = outcome"

definition sample_queue :: "(QueuedSubmission \<Rightarrow> delivery) \<Rightarrow> AsyncStorage \<Rightarrow> OfflineQueue" where
  "sample_queue cb s = setSyncCallback cb (new_OfflineQueue (Some 3) s)"

definition sample_draws :: draws where
  "sample_draws =
     \<lparr>date_now_id = 1700000000000, math_random = ''0.4fzyo82mvyr'',
      date_now_created = 1700000000001\<rparr>"

text \<open>One record enqueued into an empty queue whose delivery function always returns false.\<close>

definition single_enqueued :: OfflineQueue where
  "single_enqueued =
     fst (on_storage (enqueue sample_draws sample_submission None)
            (sample_queue (always (Resolves False)) (working_storage [])))"

definition sample_requests :: "(draws \<times> FeedbackSubmission \<times> string option) list" where
  "sample_requests =
     [(sample_draws, sample_submission, None),
      (\<lparr>date_now_id = 1700000000500, math_random = ''0.k3x9'', date_now_created = 1700000000500\<rparr>,
       sample_submission\<lparr>title := ''Dark mode''\<rparr>, Some ''file:///tmp/shot.png'')]"

text \<open>
  A second record enqueued at the same clock reading and with the same random draw as the
  first, and a queue of two records with distinct ids whose delivery always throws.
\<close>

definition twice_enqueued :: OfflineQueue where
  "twice_enqueued =
     fst (on_storage (enqueue sample_draws (sample_submission\<lparr>title := ''Second report''\<rparr>) None)
            single_enqueued)"

definition two_pending :: OfflineQueue where
  "two_pending =
     sample_queue (always (Rejects (Error ''timeout'')))
       (working_storage [sample_item ''1700000000000-4fzyo82'' 0, sample_item ''1700000000500-k3x9'' 2])"

text \<open>
  A storage whose next write is rejected; a queue whose second read is rejected and whose
  delivery always throws; a record at its retry limit over the storage that rejects
  the next write; and a record below the limit, whose delivery throws, over that storage.
\<close>

definition full_disk :: "QueuedSubmission list \<Rightarrow> AsyncStorage" where
  "full_disk xs = \<lparr>entry = Json xs, getItem_faults = [], setItem_faults = [Some (Error ''disk full'')]\<rparr>"




text \<open>
  A feedback form's input, the collaborators' answers for one call of \<open>submit\<close>, a widget
  with one record queued (online or not, a submission in flight or not), and the error
  text of a refused connection.
\<close>

definition sample_feedback :: feedback where
  "sample_feedback =
     \<lparr>given_type = Bug, given_priority = High, given_title = ''App crashes on launch'',
      given_description = ''The app crashes when I open it'', given_screenshotUri = None\<rparr>"

definition sample_env :: "transport_result \<Rightarrow> submit_env" where
  "sample_env answer =
     \<lparr>getContext_first = [(''os_name'', ''ios'')], getContext_second = [(''os_name'', ''ios'')],
      transport_submitFeedback = (\<lambda>sub. answer), enqueue_draws = sample_draws\<rparr>"

definition sample_widget :: "bool \<Rightarrow> bool \<Rightarrow> FeedbackWidget" where
  "sample_widget online submitting =
     \<lparr>user_name = Some ''Ada'', user_email = None,
      offlineQueue = (sample_queue (always (Resolves True))
                        (working_storage [sample_item ''1700000000500-k3x9'' 0]))
                     \<lparr>isConnected := online\<rparr>,
      isSubmitting = submitting, notified = []\<rparr>"

definition refused :: string where
  "refused = ''connect ECONNREFUSED 127.0.0.1:443''"

text \<open>
  A monitor whose \<open>init\<close> found the network unreachable, with one record queued, and the
  same monitor after the network has come back: the settle timer is pending.
\<close>

definition started_offline :: runtime where
  "started_offline =
     init (Some False)
       \<lparr>offline_queue = sample_queue (always (Resolves True))
                          (working_storage [sample_item ''1700000000500-k3x9'' 0]),
        netInfo_listening = False, appState_listening = False, timers = 0, sync_requests = []\<rparr>"

definition back_online :: runtime where
  "back_online = dispatch (NetInfoChanged (Some True)) started_offline"

section \<open>Lemmas about the model\<close>

subsection \<open>The store when the storage works\<close>

lemma list_all_tl: "list_all P xs \<Longrightarrow> list_all P (tl xs)"
  by (cases xs) auto

lemma getQueue_reads_ok:
  "reads_ok s \<Longrightarrow> getQueue s = (s\<lparr>getItem_faults := tl (getItem_faults s)\<rparr>, contents s)"
  by (cases "getItem_faults s"; cases "entry s")
     (auto simp: getQueue_def getItem_def contents_def reads_ok_def split: option.splits)

lemma saveQueue_writes_ok:
  "writes_ok s \<Longrightarrow>
   saveQueue xs s = (s\<lparr>entry := Json xs, setItem_faults := tl (setItem_faults s)\<rparr>, Inr ())"
  by (cases "setItem_faults s")
     (auto simp: saveQueue_def setItem_def writes_ok_def split: option.splits)

lemma reliable_after_read: "reliable s \<Longrightarrow> reliable (s\<lparr>getItem_faults := tl (getItem_faults s)\<rparr>)"
  by (simp add: reliable_def reads_ok_def writes_ok_def list_all_tl)

lemma reliable_after_write:
  "reliable s \<Longrightarrow> reliable (s\<lparr>entry := v, setItem_faults := tl (setItem_faults s)\<rparr>)"
  by (simp add: reliable_def reads_ok_def writes_ok_def list_all_tl)

lemma getQueue_reliable:
  assumes "reliable s"
  shows "\<exists>s'. getQueue s = (s', contents s) \<and> reliable s' \<and> contents s' = contents s"
  using assms reliable_after_read [OF assms]
  by (simp add: getQueue_reads_ok reliable_def contents_def)

lemma saveQueue_reliable:
  assumes "reliable s"
  shows "\<exists>s'. saveQueue xs s = (s', Inr ()) \<and> reliable s' \<and> contents s' = xs"
  using assms reliable_after_write [OF assms, of "Json xs"]
  by (simp add: saveQueue_writes_ok reliable_def contents_def)

lemma remove_reliable:
  assumes "reliable s"
  shows "\<exists>s'. remove i s = (s', Inr ()) \<and> reliable s'
           \<and> contents s' = filter (\<lambda>x. item_id x \<noteq> i) (contents s)"
proof -
  obtain s1 where s1: "getQueue s = (s1, contents s)" "reliable s1"
    using getQueue_reliable [OF assms] by blast
  obtain s2 where "saveQueue (filter (\<lambda>x. item_id x \<noteq> i) (contents s)) s1 = (s2, Inr ())"
    "reliable s2" "contents s2 = filter (\<lambda>x. item_id x \<noteq> i) (contents s)"
    using saveQueue_reliable [OF s1(2)] by blast
  with s1 show ?thesis by (simp add: remove_def)
qed

lemma update_reliable:
  assumes "reliable s"
  shows "\<exists>s'. update item s = (s', Inr ()) \<and> reliable s'
           \<and> contents s' = replace_first item (contents s)"
proof -
  obtain s1 where s1: "getQueue s = (s1, contents s)" "reliable s1" "contents s1 = contents s"
    using getQueue_reliable [OF assms] by blast
  show ?thesis
  proof (cases "findIndex (\<lambda>q. item_id q = item_id item) (contents s)")
    case None
    with s1 show ?thesis by (simp add: update_def replace_first_def)
  next
    case (Some k)
    obtain s2 where "saveQueue ((contents s)[k := item]) s1 = (s2, Inr ())"
      "reliable s2" "contents s2 = (contents s)[k := item]"
      using saveQueue_reliable [OF s1(2)] by blast
    with s1 Some show ?thesis by (simp add: update_def replace_first_def)
  qed
qed

lemma findIndex_unique:
  "\<forall>y \<in> set pre. \<not> P y \<Longrightarrow> P x \<Longrightarrow> findIndex P (pre @ x # post) = Some (length pre)"
  by (induction pre) auto

lemma replace_first_distinct:
  assumes "distinct (map item_id (pre @ x # post))" "item_id x' = item_id x"
  shows "replace_first x' (pre @ x # post) = pre @ x' # post"
proof -
  have a: "\<forall>y \<in> set pre. \<not> item_id y = item_id x'"
    using assms by (auto simp: image_iff)
  have b: "item_id x = item_id x'"
    using assms(2) by (rule sym)
  have "findIndex (\<lambda>q. item_id q = item_id x') (pre @ x # post) = Some (length pre)"
    using a b by (rule findIndex_unique)
  then show ?thesis
    unfolding replace_first_def by simp
qed

lemma filter_distinct:
  assumes "distinct (map item_id (pre @ x # post))"
  shows "filter (\<lambda>y. item_id y \<noteq> item_id x) (pre @ x # post) = pre @ post"
proof -
  have "\<forall>y \<in> set pre \<union> set post. item_id y \<noteq> item_id x" using assms by (auto simp: image_iff)
  then show ?thesis by (simp add: filter_id_conv)
qed


subsection \<open>One pass over a queue with distinct ids\<close>

lemma emit_storage [simp]: "asyncStorage (emit e q) = asyncStorage q"
  by (simp add: emit_def)

lemma effectiveMaxRetries_emit [simp]: "effectiveMaxRetries (emit e q) = effectiveMaxRetries q"
  by (simp add: emit_def effectiveMaxRetries_def)

lemma sync_item_reliable:
  assumes rel: "reliable (asyncStorage q)"
    and pend: "pending q = pre @ x # post"
    and dist: "distinct (map item_id (pre @ x # post))"
  shows "\<exists>s'. sync_item cb x q =
            (q\<lparr>asyncStorage := s', calls := calls q @ events_of cb (effectiveMaxRetries q) x\<rparr>,
             Inr (tally_of cb (effectiveMaxRetries q) x))
          \<and> reliable s'
          \<and> contents s' = pre @ left_in_queue cb (effectiveMaxRetries q) x @ post"
proof -
  let ?m = "effectiveMaxRetries q"
  let ?x' = "x\<lparr>retryCount := retryCount x + 1\<rparr>"
  have cont: "contents (asyncStorage q) = pre @ x # post"
    using pend by (simp add: pending_def)
  obtain sr where sr: "remove (item_id x) (asyncStorage q) = (sr, Inr ())" "reliable sr"
    "contents sr = pre @ post"
    using remove_reliable [OF rel, of "item_id x"] filter_distinct [OF dist] cont by auto
  have "item_id ?x' = item_id x" by simp
  then have "replace_first ?x' (pre @ x # post) = pre @ ?x' # post"
    using replace_first_distinct [OF dist] by blast
  then obtain su where su: "update ?x' (asyncStorage q) = (su, Inr ())" "reliable su"
    "contents su = pre @ ?x' # post"
    using update_reliable [OF rel, of ?x'] cont by auto
  show ?thesis
  proof (cases "retryCount x \<ge> ?m")
    case True
    with sr have "sync_item cb x q =
        (q\<lparr>asyncStorage := sr, calls := calls q @ events_of cb ?m x\<rparr>, Inr (tally_of cb ?m x))
        \<and> contents sr = pre @ left_in_queue cb ?m x @ post"
      by (simp add: sync_item_def left_in_queue_def tally_of_def events_of_def emit_def)
    with sr(2) show ?thesis by blast
  next
    case below: False
    show ?thesis
    proof (cases "cb x")
      case (Resolves ok)
      show ?thesis
      proof (cases ok)
        case True
        with Resolves below sr have "sync_item cb x q =
            (q\<lparr>asyncStorage := sr, calls := calls q @ events_of cb ?m x\<rparr>, Inr (tally_of cb ?m x))
            \<and> contents sr = pre @ left_in_queue cb ?m x @ post"
          by (simp add: sync_item_def try_delivery_def left_in_queue_def tally_of_def
                events_of_def emit_def)
        with sr(2) show ?thesis by blast
      next
        case False
        with Resolves below su have "sync_item cb x q =
            (q\<lparr>asyncStorage := su, calls := calls q @ events_of cb ?m x\<rparr>, Inr (tally_of cb ?m x))
            \<and> contents su = pre @ left_in_queue cb ?m x @ post"
          by (simp add: sync_item_def try_delivery_def left_in_queue_def tally_of_def
                events_of_def emit_def)
        with su(2) show ?thesis by blast
      qed
    next
      case (Rejects e)
      with below su have "sync_item cb x q =
          (q\<lparr>asyncStorage := su, calls := calls q @ events_of cb ?m x\<rparr>, Inr (tally_of cb ?m x))
          \<and> contents su = pre @ left_in_queue cb ?m x @ post"
        by (simp add: sync_item_def try_delivery_def catch_delivery_def left_in_queue_def
              tally_of_def events_of_def emit_def)
      with su(2) show ?thesis by blast
    qed
  qed
qed


lemma left_in_queue_ids:
  "map item_id (left_in_queue cb m x) = [] \<or> map item_id (left_in_queue cb m x) = [item_id x]"
  by (simp add: left_in_queue_def split: delivery.splits bool.splits)

lemma distinct_after_item:
  assumes "distinct (map item_id (pre @ x # xs))"
  shows "distinct (map item_id ((pre @ left_in_queue cb m x) @ xs))"
  using assms left_in_queue_ids [of cb m x] by (auto simp: image_iff)

lemma tallied_Cons:
  "tallied cb m (x # xs) c =
     tallied cb m xs (case tally_of cb m x of
                        Succeeded \<Rightarrow> c\<lparr>succeeded := succeeded c + 1\<rparr>
                      | Failed \<Rightarrow> c\<lparr>failed := failed c + 1\<rparr>)"
  by (cases "tally_of cb m x") (simp_all add: tallied_def)

lemma sync_loop_reliable:
  assumes "reliable (asyncStorage q)"
    and "pending q = pre @ xs"
    and "distinct (map item_id (pre @ xs))"
  shows "\<exists>s'. sync_loop cb xs q c =
            (q\<lparr>asyncStorage := s',
               calls := calls q @ concat (map (events_of cb (effectiveMaxRetries q)) xs)\<rparr>,
             tallied cb (effectiveMaxRetries q) xs c, None)
          \<and> reliable s'
          \<and> contents s' = pre @ concat (map (left_in_queue cb (effectiveMaxRetries q)) xs)"
  using assms
proof (induction xs arbitrary: q pre c)
  case Nil
  then show ?case
    by (intro exI [of _ "asyncStorage q"]) (simp add: tallied_def pending_def)
next
  case (Cons x xs)
  let ?m = "effectiveMaxRetries q"
  obtain s1 where s1:
    "sync_item cb x q =
       (q\<lparr>asyncStorage := s1, calls := calls q @ events_of cb ?m x\<rparr>, Inr (tally_of cb ?m x))"
    "reliable s1" "contents s1 = pre @ left_in_queue cb ?m x @ xs"
    using sync_item_reliable [OF Cons.prems] by blast
  let ?q1 = "q\<lparr>asyncStorage := s1, calls := calls q @ events_of cb ?m x\<rparr>"
  let ?c1 = "case tally_of cb ?m x of
               Succeeded \<Rightarrow> c\<lparr>succeeded := succeeded c + 1\<rparr>
             | Failed \<Rightarrow> c\<lparr>failed := failed c + 1\<rparr>"
  have m1: "effectiveMaxRetries ?q1 = ?m"
    by (simp add: effectiveMaxRetries_def)
  have "reliable (asyncStorage ?q1)" using s1(2) by simp
  moreover have "pending ?q1 = (pre @ left_in_queue cb ?m x) @ xs"
    using s1(3) by (simp add: pending_def)
  moreover have "distinct (map item_id ((pre @ left_in_queue cb ?m x) @ xs))"
    using Cons.prems(3) by (rule distinct_after_item)
  ultimately obtain s' where s':
    "sync_loop cb xs ?q1 ?c1 =
       (?q1\<lparr>asyncStorage := s',
            calls := calls ?q1 @ concat (map (events_of cb (effectiveMaxRetries ?q1)) xs)\<rparr>,
        tallied cb (effectiveMaxRetries ?q1) xs ?c1, None)"
    "reliable s'"
    "contents s' = (pre @ left_in_queue cb ?m x) @ concat (map (left_in_queue cb (effectiveMaxRetries ?q1)) xs)"
    using Cons.IH [of ?q1 "pre @ left_in_queue cb ?m x" ?c1] by blast
  have "sync_loop cb (x # xs) q c = sync_loop cb xs ?q1 ?c1"
    using s1(1) by (cases "tally_of cb ?m x") simp_all
  with s' m1 have "sync_loop cb (x # xs) q c =
            (q\<lparr>asyncStorage := s',
               calls := calls q @ concat (map (events_of cb ?m) (x # xs))\<rparr>,
             tallied cb ?m (x # xs) c, None)
          \<and> contents s' = pre @ concat (map (left_in_queue cb ?m) (x # xs))"
    by (simp add: tallied_Cons)
  with s'(2) show ?case by blast
qed


lemma sync_reliable:
  assumes on: "isConnected q" and idle: "\<not> syncInProgress q" and cb: "syncCallback q = Some cb"
    and rel: "reliable (asyncStorage q)"
    and dist: "distinct (map item_id (pending q))"
  shows "\<exists>s'. sync q =
            (q\<lparr>asyncStorage := s',
               calls := calls q @ [OnSyncStart]
                        @ concat (map (events_of cb (effectiveMaxRetries q)) (pending q))
                        @ [OnSyncComplete
                             (succeeded (pass_counts cb (effectiveMaxRetries q) (pending q)))
                             (failed (pass_counts cb (effectiveMaxRetries q) (pending q)))]\<rparr>,
             Inr (pass_counts cb (effectiveMaxRetries q) (pending q)))
          \<and> reliable s'
          \<and> contents s' = concat (map (left_in_queue cb (effectiveMaxRetries q)) (pending q))"
proof -
  let ?m = "effectiveMaxRetries q"
  let ?q1 = "emit OnSyncStart (q\<lparr>syncInProgress := True\<rparr>)"
  obtain s1 where s1: "getQueue (asyncStorage q) = (s1, pending q)" "reliable s1"
    "contents s1 = pending q"
    using getQueue_reliable [OF rel] by (auto simp: pending_def)
  let ?q2 = "?q1\<lparr>asyncStorage := s1\<rparr>"
  have m2: "effectiveMaxRetries ?q2 = ?m"
    by (simp add: effectiveMaxRetries_def emit_def)
  have "reliable (asyncStorage ?q2)" using s1(2) by simp
  moreover have "pending ?q2 = [] @ pending q" using s1(3) by (simp add: pending_def)
  moreover have "distinct (map item_id ([] @ pending q))" using dist by simp
  ultimately obtain s' where s':
    "sync_loop cb (pending q) ?q2 \<lparr>succeeded = 0, failed = 0\<rparr> =
       (?q2\<lparr>asyncStorage := s',
            calls := calls ?q2 @ concat (map (events_of cb (effectiveMaxRetries ?q2)) (pending q))\<rparr>,
        tallied cb (effectiveMaxRetries ?q2) (pending q) \<lparr>succeeded = 0, failed = 0\<rparr>, None)"
    "reliable s'"
    "contents s' = [] @ concat (map (left_in_queue cb (effectiveMaxRetries ?q2)) (pending q))"
    using sync_loop_reliable [of ?q2 "[]" "pending q" cb "\<lparr>succeeded = 0, failed = 0\<rparr>"] by blast
  have same: "q\<lparr>syncInProgress := False\<rparr> = q" using idle by simp
  have "sync q =
          (q\<lparr>syncInProgress := False, asyncStorage := s',
             calls := calls q @ [OnSyncStart]
                      @ concat (map (events_of cb ?m) (pending q))
                      @ [OnSyncComplete (succeeded (pass_counts cb ?m (pending q)))
                           (failed (pass_counts cb ?m (pending q)))]\<rparr>,
           Inr (pass_counts cb ?m (pending q)))"
    using on idle cb s1(1) s' m2
    by (simp add: sync_def getPending_def pass_counts_def emit_def)
  with same s'(2,3) m2 show ?thesis
    by (intro exI [of _ s']) simp
qed


lemma sync_reliable_proj:
  assumes "isConnected q" and "\<not> syncInProgress q" and "syncCallback q = Some cb"
    and "reliable (asyncStorage q)"
    and "distinct (map item_id (pending q))"
  shows "snd (sync q) = Inr (pass_counts cb (effectiveMaxRetries q) (pending q))"
    and "pending (fst (sync q)) = concat (map (left_in_queue cb (effectiveMaxRetries q)) (pending q))"
    and "reliable (asyncStorage (fst (sync q)))"
    and "isConnected (fst (sync q))" and "\<not> syncInProgress (fst (sync q))"
    and "syncCallback (fst (sync q)) = Some cb"
    and "maxRetries (fst (sync q)) = maxRetries q"
    and "calls (fst (sync q)) =
           calls q @ [OnSyncStart]
           @ concat (map (events_of cb (effectiveMaxRetries q)) (pending q))
           @ [OnSyncComplete (succeeded (pass_counts cb (effectiveMaxRetries q) (pending q)))
                (failed (pass_counts cb (effectiveMaxRetries q) (pending q)))]"
  using sync_reliable [OF assms] assms(1-3) by (auto simp: pending_def)

lemma ids_after_pass:
  "distinct (map item_id xs) \<Longrightarrow> distinct (map item_id (concat (map (left_in_queue cb m) xs)))"
proof (induction xs)
  case Nil
  then show ?case by simp
next
  case (Cons x xs)
  have sub: "set (map item_id (concat (map (left_in_queue cb m) xs))) \<subseteq> set (map item_id xs)"
    by (auto simp: left_in_queue_def split: if_splits delivery.splits bool.splits)
  have fresh: "item_id x \<notin> set (map item_id (concat (map (left_in_queue cb m) xs)))"
    using sub Cons.prems by auto
  have rest: "distinct (map item_id (concat (map (left_in_queue cb m) xs)))"
    using Cons by simp
  from left_in_queue_ids [of cb m x] show ?case
  proof
    assume "map item_id (left_in_queue cb m x) = []"
    with rest show ?thesis by simp
  next
    assume "map item_id (left_in_queue cb m x) = [item_id x]"
    with rest fresh show ?thesis by simp
  qed
qed

subsection \<open>Enqueueing, and passes over a single record\<close>

lemma enqueue_reliable:
  assumes "reliable s"
  shows "\<exists>s'. enqueue d sub shot s = (s', Inr (new_id d)) \<and> reliable s'
           \<and> contents s' = contents s @ [queuedItem d sub shot]"
proof -
  obtain s1 where s1: "getQueue s = (s1, contents s)" "reliable s1"
    using getQueue_reliable [OF assms] by blast
  obtain s2 where "saveQueue (contents s @ [queuedItem d sub shot]) s1 = (s2, Inr ())"
    "reliable s2" "contents s2 = contents s @ [queuedItem d sub shot]"
    using saveQueue_reliable [OF s1(2)] by blast
  with s1 show ?thesis by (simp add: enqueue_def queuedItem_def)
qed

lemma on_storage_enqueue_ready:
  assumes "ready cb q"
  shows "ready cb (fst (on_storage (enqueue d sub shot) q))"
    and "pending (fst (on_storage (enqueue d sub shot) q)) = pending q @ [queuedItem d sub shot]"
    and "snd (on_storage (enqueue d sub shot) q) = Inr (new_id d)"
    and "maxRetries (fst (on_storage (enqueue d sub shot) q)) = maxRetries q"
    and "calls (fst (on_storage (enqueue d sub shot) q)) = calls q"
proof -
  obtain s' where "enqueue d sub shot (asyncStorage q) = (s', Inr (new_id d))" "reliable s'"
    "contents s' = contents (asyncStorage q) @ [queuedItem d sub shot]"
    using enqueue_reliable [of "asyncStorage q" d sub shot] assms unfolding ready_def by blast
  with assms show "ready cb (fst (on_storage (enqueue d sub shot) q))"
    and "pending (fst (on_storage (enqueue d sub shot) q)) = pending q @ [queuedItem d sub shot]"
    and "snd (on_storage (enqueue d sub shot) q) = Inr (new_id d)"
    and "maxRetries (fst (on_storage (enqueue d sub shot) q)) = maxRetries q"
    and "calls (fst (on_storage (enqueue d sub shot) q)) = calls q"
    by (simp_all add: on_storage_def ready_def pending_def)
qed

lemma effectiveMaxRetries_cong:
  "maxRetries q' = maxRetries q \<Longrightarrow> effectiveMaxRetries q' = effectiveMaxRetries q"
  by (simp add: effectiveMaxRetries_def)

lemma sync_ready:
  assumes "ready cb q" and "distinct (map item_id (pending q))"
  shows "ready cb (fst (sync q))"
    and "maxRetries (fst (sync q)) = maxRetries q"
    and "snd (sync q) = Inr (pass_counts cb (effectiveMaxRetries q) (pending q))"
    and "pending (fst (sync q)) = concat (map (left_in_queue cb (effectiveMaxRetries q)) (pending q))"
  using assms sync_reliable_proj [of q cb] by (simp_all add: ready_def)

lemma single_pass:
  assumes "ready cb q" and "pending q = [x]"
  shows "ready cb (fst (sync q))"
    and "maxRetries (fst (sync q)) = maxRetries q"
    and "snd (sync q) = Inr (pass_counts cb (effectiveMaxRetries q) [x])"
    and "pending (fst (sync q)) = left_in_queue cb (effectiveMaxRetries q) x"
  using assms sync_ready [of cb q] by simp_all

lemma empty_pass:
  assumes "ready cb q" and "pending q = []"
  shows "snd (sync q) = Inr \<lparr>succeeded = 0, failed = 0\<rparr>" and "pending (fst (sync q)) = []"
  using assms sync_ready [of cb q] by (simp_all add: pass_counts_def tallied_def)

lemma failing_counts:
  assumes "cb x \<noteq> Resolves True"
  shows "pass_counts cb m [x] = \<lparr>succeeded = 0, failed = 1\<rparr>"
  using assms by (cases "cb x") (auto simp: pass_counts_def tallied_def tally_of_def)

lemma failing_left:
  assumes "cb x \<noteq> Resolves True" and "retryCount x < m"
  shows "left_in_queue cb m x = [x\<lparr>retryCount := retryCount x + 1\<rparr>]"
  using assms by (cases "cb x") (auto simp: left_in_queue_def)

lemma evicted_left: "m \<le> retryCount x \<Longrightarrow> left_in_queue cb m x = []"
  by (simp add: left_in_queue_def)

lemma passes_unroll: "passes 3 q = fst (sync (fst (sync (fst (sync q)))))"
  by (simp add: eval_nat_numeral)

lemma ready_sample_queue: "ready cb (sample_queue cb (working_storage xs))"
  by (simp add: ready_def sample_queue_def setSyncCallback_def new_OfflineQueue_def
        working_storage_def reliable_def reads_ok_def writes_ok_def)

lemma sample_queue_fields:
  "maxRetries (sample_queue cb s) = Some 3"
  "pending (sample_queue cb (working_storage xs)) = xs"
  "calls (sample_queue cb s) = []"
  by (simp_all add: sample_queue_def setSyncCallback_def new_OfflineQueue_def
        working_storage_def pending_def contents_def)

subsection \<open>A pass whose deliveries all succeed\<close>

lemma sync_item_success:
  assumes rel: "reliable (asyncStorage q)"
    and below: "retryCount x < effectiveMaxRetries q"
    and ok: "cb x = Resolves True"
  shows "\<exists>s'. sync_item cb x q =
            (q\<lparr>asyncStorage := s',
               calls := calls q @ [SyncCallback x, OnSubmissionSynced (item_id x)]\<rparr>,
             Inr Succeeded)
          \<and> reliable s'
          \<and> contents s' = filter (\<lambda>y. item_id y \<noteq> item_id x) (contents (asyncStorage q))"
proof -
  obtain sr where sr: "remove (item_id x) (asyncStorage q) = (sr, Inr ())" "reliable sr"
    "contents sr = filter (\<lambda>y. item_id y \<noteq> item_id x) (contents (asyncStorage q))"
    using remove_reliable [OF rel, of "item_id x"] by blast
  with below ok have "sync_item cb x q =
      (q\<lparr>asyncStorage := sr,
         calls := calls q @ [SyncCallback x, OnSubmissionSynced (item_id x)]\<rparr>, Inr Succeeded)"
    by (simp add: sync_item_def try_delivery_def emit_def)
  with sr(2,3) show ?thesis by blast
qed

lemma sync_loop_success:
  assumes "reliable (asyncStorage q)"
    and "\<forall>x \<in> set xs. retryCount x < effectiveMaxRetries q \<and> cb x = Resolves True"
  shows "\<exists>s'. sync_loop cb xs q c =
            (q\<lparr>asyncStorage := s', calls := calls q @ concat (map synced_events xs)\<rparr>,
             c\<lparr>succeeded := succeeded c + length xs\<rparr>, None)
          \<and> reliable s'
          \<and> contents s' = filter (\<lambda>y. item_id y \<notin> item_id ` set xs) (contents (asyncStorage q))"
  using assms
proof (induction xs arbitrary: q c)
  case Nil
  then show ?case
    by (intro exI [of _ "asyncStorage q"]) simp
next
  case (Cons x xs)
  obtain s1 where s1:
    "sync_item cb x q = (q\<lparr>asyncStorage := s1, calls := calls q @ synced_events x\<rparr>, Inr Succeeded)"
    "reliable s1"
    "contents s1 = filter (\<lambda>y. item_id y \<noteq> item_id x) (contents (asyncStorage q))"
    using sync_item_success [of q x cb] Cons.prems by (auto simp: synced_events_def)
  let ?q1 = "q\<lparr>asyncStorage := s1, calls := calls q @ synced_events x\<rparr>"
  let ?c1 = "c\<lparr>succeeded := succeeded c + 1\<rparr>"
  have m1: "effectiveMaxRetries ?q1 = effectiveMaxRetries q"
    by (simp add: effectiveMaxRetries_def)
  have "reliable (asyncStorage ?q1)" using s1(2) by simp
  moreover have "\<forall>y \<in> set xs. retryCount y < effectiveMaxRetries ?q1 \<and> cb y = Resolves True"
    using Cons.prems(2) m1 by simp
  ultimately obtain s' where s':
    "sync_loop cb xs ?q1 ?c1 =
       (?q1\<lparr>asyncStorage := s', calls := calls ?q1 @ concat (map synced_events xs)\<rparr>,
        ?c1\<lparr>succeeded := succeeded ?c1 + length xs\<rparr>, None)"
    "reliable s'"
    "contents s' = filter (\<lambda>y. item_id y \<notin> item_id ` set xs) (contents (asyncStorage ?q1))"
    using Cons.IH [of ?q1 ?c1] by blast
  have "sync_loop cb (x # xs) q c = sync_loop cb xs ?q1 ?c1"
    using s1(1) by simp
  with s' s1(3) have "sync_loop cb (x # xs) q c =
      (q\<lparr>asyncStorage := s', calls := calls q @ concat (map synced_events (x # xs))\<rparr>,
       c\<lparr>succeeded := succeeded c + length (x # xs)\<rparr>, None)
      \<and> contents s' = filter (\<lambda>y. item_id y \<notin> item_id ` set (x # xs)) (contents (asyncStorage q))"
    by (simp add: conj_commute)
  with s'(2) show ?case by blast
qed

lemma deliveries_append: "deliveries (es @ fs) = deliveries es @ deliveries fs"
  by (induction es rule: deliveries.induct) simp_all

lemma deliveries_synced: "deliveries (concat (map synced_events xs)) = xs"
  by (induction xs) (simp_all add: synced_events_def)

lemma sync_all_success:
  assumes rdy: "ready cb q"
    and all: "\<forall>x \<in> set (pending q). retryCount x < effectiveMaxRetries q \<and> cb x = Resolves True"
  shows "snd (sync q) = Inr \<lparr>succeeded = length (pending q), failed = 0\<rparr>"
    and "pending (fst (sync q)) = []"
    and "deliveries (calls (fst (sync q))) = deliveries (calls q) @ pending q"
proof -
  have rel: "reliable (asyncStorage q)" and on: "isConnected q" and idle: "\<not> syncInProgress q"
    and cb: "syncCallback q = Some cb"
    using rdy by (simp_all add: ready_def)
  let ?q1 = "emit OnSyncStart (q\<lparr>syncInProgress := True\<rparr>)"
  obtain s1 where s1: "getQueue (asyncStorage q) = (s1, pending q)" "reliable s1"
    "contents s1 = pending q"
    using getQueue_reliable [OF rel] by (auto simp: pending_def)
  let ?q2 = "?q1\<lparr>asyncStorage := s1\<rparr>"
  have m2: "effectiveMaxRetries ?q2 = effectiveMaxRetries q"
    by (simp add: effectiveMaxRetries_def emit_def)
  have "reliable (asyncStorage ?q2)" using s1(2) by simp
  moreover have "\<forall>x \<in> set (pending q). retryCount x < effectiveMaxRetries ?q2 \<and> cb x = Resolves True"
    using all m2 by simp
  ultimately obtain s' where s':
    "sync_loop cb (pending q) ?q2 \<lparr>succeeded = 0, failed = 0\<rparr> =
       (?q2\<lparr>asyncStorage := s', calls := calls ?q2 @ concat (map synced_events (pending q))\<rparr>,
        \<lparr>succeeded = 0, failed = 0\<rparr>\<lparr>succeeded := succeeded \<lparr>succeeded = 0, failed = 0\<rparr> + length (pending q)\<rparr>,
        None)"
    "contents s' = filter (\<lambda>y. item_id y \<notin> item_id ` set (pending q)) (contents (asyncStorage ?q2))"
    using sync_loop_success [of ?q2 "pending q" cb "\<lparr>succeeded = 0, failed = 0\<rparr>"] by blast
  have empty: "contents s' = []"
    using s'(2) s1(3) by (simp add: filter_empty_conv)
  have "sync q =
      (q\<lparr>syncInProgress := False, asyncStorage := s',
         calls := calls q @ [OnSyncStart] @ concat (map synced_events (pending q))
                  @ [OnSyncComplete (length (pending q)) 0]\<rparr>,
       Inr \<lparr>succeeded = length (pending q), failed = 0\<rparr>)"
    using on idle cb s1(1) s'(1)
    by (simp add: sync_def getPending_def emit_def)
  with empty show "snd (sync q) = Inr \<lparr>succeeded = length (pending q), failed = 0\<rparr>"
    and "pending (fst (sync q)) = []"
    and "deliveries (calls (fst (sync q))) = deliveries (calls q) @ pending q"
    by (simp_all add: pending_def deliveries_append deliveries_synced)
qed

lemma enqueue_all_ready:
  assumes "ready cb q"
  shows "ready cb (enqueue_all reqs q)
       \<and> pending (enqueue_all reqs q)
           = pending q @ map (\<lambda>(d, sub, shot). queuedItem d sub shot) reqs
       \<and> maxRetries (enqueue_all reqs q) = maxRetries q
       \<and> calls (enqueue_all reqs q) = calls q"
  using assms
proof (induction reqs arbitrary: q)
  case Nil
  then show ?case by simp
next
  case (Cons r reqs)
  obtain d sub shot where r: "r = (d, sub, shot)" by (cases r) auto
  let ?q1 = "fst (on_storage (enqueue d sub shot) q)"
  note step = on_storage_enqueue_ready [OF Cons.prems, of d sub shot]
  from Cons.IH [OF step(1)] step(2,4,5) r show ?case by simp
qed

lemma fresh_items_zero:
  "\<forall>x \<in> set (map (\<lambda>(d, sub, shot). queuedItem d sub shot) reqs). retryCount x = 0"
  by (induction reqs) (auto simp: queuedItem_def)

lemma effectiveMaxRetries_sample_queue: "effectiveMaxRetries (sample_queue cb s) = 3"
  by (simp add: effectiveMaxRetries_def sample_queue_def setSyncCallback_def new_OfflineQueue_def)

subsection \<open>Evaluating concrete states\<close>

text \<open>The definitions a concrete state is evaluated with.\<close>

lemmas model_defs =
  sync_def sync_item_def try_delivery_def catch_delivery_def getPending_def getQueue_def
  getItem_def saveQueue_def setItem_def remove_def update_def enqueue_def queuedItem_def
  on_storage_def emit_def effectiveMaxRetries_def message_of_def pending_def contents_def
  sample_queue_def setSyncCallback_def new_OfflineQueue_def working_storage_def always_def
  Let_def

lemma kept_after_failure:
  assumes "x \<in> set xs" and "retryCount x < m" and "cb x \<noteq> Resolves True"
  shows "x\<lparr>retryCount := retryCount x + 1\<rparr> \<in> set (concat (map (left_in_queue cb m) xs))"
  using assms failing_left [of cb x m] by (auto intro!: bexI [of _ x])

lemma origin_of_kept:
  assumes "y \<in> set (concat (map (left_in_queue cb m) xs))"
  shows "\<exists>x \<in> set xs. y = x\<lparr>retryCount := retryCount x + 1\<rparr>
           \<and> retryCount x < m \<and> cb x \<noteq> Resolves True"
proof -
  from assms obtain x where x: "x \<in> set xs" "y \<in> set (left_in_queue cb m x)" by auto
  then have "y = x\<lparr>retryCount := retryCount x + 1\<rparr> \<and> retryCount x < m \<and> cb x \<noteq> Resolves True"
    by (cases "cb x") (auto simp: left_in_queue_def split: if_splits bool.splits)
  with x(1) show ?thesis by blast
qed

subsection \<open>When only the writes succeed\<close>

text \<open>Reads may be rejected and ids may repeat.\<close>

lemma getQueue_frame:
  "entry (fst (getQueue s)) = entry s \<and> setItem_faults (fst (getQueue s)) = setItem_faults s"
  by (simp add: getQueue_def getItem_def split: list.splits option.splits stored.splits)

lemma getQueue_writes_ok: "writes_ok (fst (getQueue s)) = writes_ok s"
  by (simp add: writes_ok_def getQueue_frame)

lemma saveQueue_keeps_writes_ok:
  "writes_ok s \<Longrightarrow> snd (saveQueue xs s) = Inr () \<and> writes_ok (fst (saveQueue xs s))"
  by (simp add: saveQueue_writes_ok) (simp add: writes_ok_def list_all_tl)

lemma remove_writes_ok:
  assumes "writes_ok s"
  shows "snd (remove i s) = Inr () \<and> writes_ok (fst (remove i s))"
proof -
  obtain s1 xs where g: "getQueue s = (s1, xs)" by (cases "getQueue s")
  then have "writes_ok s1" using getQueue_writes_ok [of s] assms by simp
  then show ?thesis
    using g saveQueue_keeps_writes_ok [of s1] by (simp add: remove_def)
qed

lemma update_writes_ok:
  assumes "writes_ok s"
  shows "snd (update item s) = Inr () \<and> writes_ok (fst (update item s))"
proof -
  obtain s1 xs where g: "getQueue s = (s1, xs)" by (cases "getQueue s")
  then have "writes_ok s1" using getQueue_writes_ok [of s] assms by simp
  then show ?thesis
    using g saveQueue_keeps_writes_ok [of s1] by (simp add: update_def split: option.splits)
qed

lemma update_result:
  assumes "writes_ok s"
  obtains s' where "update item s = (s', Inr ())" and "writes_ok s'"
  using update_writes_ok [OF assms, of item] by (cases "update item s") auto

lemma remove_result:
  assumes "writes_ok s"
  obtains s' where "remove i s = (s', Inr ())" and "writes_ok s'"
  using remove_writes_ok [OF assms, of i] by (cases "remove i s") auto

lemma sync_item_writes_ok:
  assumes w: "writes_ok (asyncStorage q)"
  shows "\<exists>s'. sync_item cb x q =
            (q\<lparr>asyncStorage := s', calls := calls q @ events_of cb (effectiveMaxRetries q) x\<rparr>,
             Inr (tally_of cb (effectiveMaxRetries q) x))
          \<and> writes_ok s'"
proof -
  let ?m = "effectiveMaxRetries q"
  let ?x' = "x\<lparr>retryCount := retryCount x + 1\<rparr>"
  obtain sr where sr: "remove (item_id x) (asyncStorage q) = (sr, Inr ())" "writes_ok sr"
    using remove_result [OF w] by blast
  obtain su where su: "update ?x' (asyncStorage q) = (su, Inr ())" "writes_ok su"
    using update_result [OF w] by blast
  show ?thesis
  proof (cases "retryCount x \<ge> ?m")
    case True
    with sr have "sync_item cb x q =
        (q\<lparr>asyncStorage := sr, calls := calls q @ events_of cb ?m x\<rparr>, Inr (tally_of cb ?m x))"
      by (simp add: sync_item_def tally_of_def events_of_def emit_def)
    with sr(2) show ?thesis by blast
  next
    case below: False
    show ?thesis
    proof (cases "cb x")
      case (Resolves ok)
      show ?thesis
      proof (cases ok)
        case True
        with Resolves below sr have "sync_item cb x q =
            (q\<lparr>asyncStorage := sr, calls := calls q @ events_of cb ?m x\<rparr>, Inr (tally_of cb ?m x))"
          by (simp add: sync_item_def try_delivery_def tally_of_def events_of_def emit_def)
        with sr(2) show ?thesis by blast
      next
        case False
        with Resolves below su have "sync_item cb x q =
            (q\<lparr>asyncStorage := su, calls := calls q @ events_of cb ?m x\<rparr>, Inr (tally_of cb ?m x))"
          by (simp add: sync_item_def try_delivery_def tally_of_def events_of_def emit_def)
        with su(2) show ?thesis by blast
      qed
    next
      case (Rejects e)
      with below su have "sync_item cb x q =
          (q\<lparr>asyncStorage := su, calls := calls q @ events_of cb ?m x\<rparr>, Inr (tally_of cb ?m x))"
        by (simp add: sync_item_def try_delivery_def catch_delivery_def tally_of_def
              events_of_def emit_def)
      with su(2) show ?thesis by blast
    qed
  qed
qed





subsection \<open>The facade\<close>

text \<open>Classification of error texts, and queueing when the storage works.\<close>

lemma network_request_failed_is_network: "isNetworkError (Some ''Network request failed'')"
  by code_simp

lemma refused_not_network: "\<not> isNetworkError (Some refused)"
  by code_simp

lemma refused_not_empty: "refused \<noteq> []"
  by (simp add: refused_def)

lemma getPendingCount_reliable:
  "reliable s \<Longrightarrow> snd (getPendingCount s) = length (contents s)"
  using getQueue_reliable [of s] by (auto simp: getPendingCount_def)

lemma widget_getPendingCount_reliable:
  "reliable (asyncStorage (offlineQueue w))
   \<Longrightarrow> snd (widget_getPendingCount (Some w)) = length (pending (offlineQueue w))"
  using getPendingCount_reliable [of "asyncStorage (offlineQueue w)"]
  by (auto simp add: widget_getPendingCount_def on_storage_def pending_def split: prod.splits)

lemma queueSubmission_reliable:
  assumes "reliable (asyncStorage (offlineQueue w))"
  shows "snd (queueSubmission d sub shot w)
           = \<lparr>success = True, feedback_id = Some (''offline-'' @ new_id d), error = None\<rparr>"
    and "reliable (asyncStorage (offlineQueue (fst (queueSubmission d sub shot w))))"
    and "pending (offlineQueue (fst (queueSubmission d sub shot w)))
           = pending (offlineQueue w) @ [queuedItem d sub shot]"
    and "isSubmitting (fst (queueSubmission d sub shot w)) = isSubmitting w"
    and "notified (fst (queueSubmission d sub shot w)) = notified w"
proof -
  obtain s' where "enqueue d sub shot (asyncStorage (offlineQueue w)) = (s', Inr (new_id d))"
    "reliable s'" "contents s' = contents (asyncStorage (offlineQueue w)) @ [queuedItem d sub shot]"
    using enqueue_reliable [OF assms, of d sub shot] by blast
  then show "snd (queueSubmission d sub shot w)
           = \<lparr>success = True, feedback_id = Some (''offline-'' @ new_id d), error = None\<rparr>"
    and "reliable (asyncStorage (offlineQueue (fst (queueSubmission d sub shot w))))"
    and "pending (offlineQueue (fst (queueSubmission d sub shot w)))
           = pending (offlineQueue w) @ [queuedItem d sub shot]"
    and "isSubmitting (fst (queueSubmission d sub shot w)) = isSubmitting w"
    and "notified (fst (queueSubmission d sub shot w)) = notified w"
    by (simp_all add: queueSubmission_def on_storage_def pending_def)
qed

lemma startsWith_set: "startsWith s e \<Longrightarrow> set e \<subseteq> set s"
  by (induction s e rule: startsWith.induct) auto

lemma includes_str_set: "includes_str s e \<Longrightarrow> set e \<subseteq> set s"
proof (induction s)
  case Nil
  then show ?case by simp
next
  case (Cons a s)
  from Cons.prems have "startsWith (a # s) e \<or> includes_str s e" by simp
  then show ?case
    using startsWith_set [of "a # s" e] Cons.IH by auto
qed

lemma toLowerCase_char_not_E: "toLowerCase_char c \<noteq> CHR ''E''"
proof
  assume eq: "toLowerCase_char c = CHR ''E''"
  let ?n = "of_char c :: nat"
  show False
  proof (cases "65 \<le> ?n \<and> ?n \<le> 90")
    case True
    then have "char_of (?n + 32) = CHR ''E''"
      using eq by (simp add: toLowerCase_char_def Let_def)
    then have "(of_char (char_of (?n + 32)) :: nat) = of_char (CHR ''E'')" by simp
    then have "(?n + 32) mod 256 = 69" by simp
    with True show False by simp
  next
    case False
    then have "c = CHR ''E''"
      using eq by (auto simp add: toLowerCase_char_def Let_def split: if_splits)
    then have "?n = 69" by simp
    with False show False by simp
  qed
qed

lemma econnrefused_never_matches: "\<not> includes_str (toLowerCase e) ''ECONNREFUSED''"
proof
  assume "includes_str (toLowerCase e) ''ECONNREFUSED''"
  then have "CHR ''E'' \<in> set (toLowerCase e)"
    using includes_str_set by fastforce
  then obtain c where "toLowerCase_char c = CHR ''E''"
    by (auto simp: toLowerCase_def)
  then show False
    using toLowerCase_char_not_E by blast
qed

lemma isNetworkError_four_markers:
  "isNetworkError (Some e) \<longleftrightarrow>
     e \<noteq> [] \<and> list_ex (\<lambda>m. includes_str (toLowerCase e) m)
                 [''network'', ''fetch'', ''timeout'', ''offline'']"
  using econnrefused_never_matches [of e]
  by (simp add: isNetworkError_def networkErrors_def Let_def)

lemma network_request_failed_is_queued:
  assumes "\<not> isSubmitting w" and "isOnline (Some w)"
    and "reliable (asyncStorage (offlineQueue w))"
    and "\<forall>sub. transport_submitFeedback env sub = Throws (Error ''Network request failed'')"
  shows "snd (submitFeedback env fb w)
           = \<lparr>success = True, feedback_id = Some (''offline-'' @ new_id (enqueue_draws env)),
              error = None\<rparr>
       \<and> length (pending (offlineQueue (fst (submitFeedback env fb w))))
           = length (pending (offlineQueue w)) + 1"
proof -
  let ?w1 = "notify OnSubmitStart (w\<lparr>isSubmitting := True\<rparr>)"
  let ?sub = "\<lparr>fb_type = given_type fb, priority = given_priority fb, title = given_title fb,
           description = given_description fb, submitter_name = None, submitter_email = None,
           widget_version = Some SDK_VERSION, fb_context = Some (getContext_second env)\<rparr>"
  let ?r = "queueSubmission (enqueue_draws env) ?sub (given_screenshotUri fb) ?w1"
  have rel1: "reliable (asyncStorage (offlineQueue ?w1))"
    using assms(3) by (simp add: notify_def)
  note qs = queueSubmission_reliable [OF rel1, of "enqueue_draws env" ?sub "given_screenshotUri fb"]
  have on1: "getOnlineStatus (offlineQueue ?w1)"
    using assms(2) by (simp add: isOnline_def notify_def)
  have "after_throw env fb (Error ''Network request failed'') ?w1 = ?r"
    using network_request_failed_is_network by (simp add: after_throw_def)
  then have "submitFeedback env fb w = ((fst ?r)\<lparr>isSubmitting := False\<rparr>, snd ?r)"
    using assms(1,4) on1 by (simp add: submitFeedback_def Let_def split: prod.splits)
  then show ?thesis
    using qs(1,3) by (simp add: notify_def)
qed

subsection \<open>The monitor once its two handlers are unsubscribed\<close>

lemma request_sync_frame:
  "netInfo_listening (request_sync by_whom r) = netInfo_listening r"
  "appState_listening (request_sync by_whom r) = appState_listening r"
  "timers (request_sync by_whom r) = timers r"
  "sync_requests (request_sync by_whom r) = sync_requests r @ [by_whom]"
  by (simp_all add: request_sync_def)

lemma destroy_frame:
  "timers (destroy r) = timers r"
  "sync_requests (destroy r) = sync_requests r"
  "offline_queue (destroy r) = offline_queue r"
  "\<not> netInfo_listening r \<Longrightarrow> \<not> netInfo_listening (destroy r)"
  "\<not> appState_listening r \<Longrightarrow> \<not> appState_listening (destroy r)"
  by (simp_all add: destroy_def Let_def)

lemma destroy_unsubscribes:
  assumes "unsubscribeNetInfo (offline_queue r)" and "appStateSubscription (offline_queue r)"
  shows "\<not> netInfo_listening (destroy r)" and "\<not> appState_listening (destroy r)"
  using assms by (simp_all add: destroy_def Let_def)

lemma dispatch_unsubscribed:
  assumes "\<not> netInfo_listening r" and "\<not> appState_listening r"
  shows "\<not> netInfo_listening (dispatch ev r)" and "\<not> appState_listening (dispatch ev r)"
    and "timers (dispatch ev r) = (if ev = TimerElapsed then timers r - 1 else timers r)"
    and "sync_requests (dispatch ev r)
           = (if ev = TimerElapsed \<and> timers r \<noteq> 0 then sync_requests r @ [FromSettleTimer]
              else sync_requests r)"
  using assms by (cases ev; simp add: request_sync_frame destroy_frame)+

lemma run_unsubscribed:
  assumes "\<not> netInfo_listening r" and "\<not> appState_listening r"
  shows "sync_requests (run evs r)
           = sync_requests r @ replicate (min (timers r) (count_list evs TimerElapsed)) FromSettleTimer
       \<and> timers (run evs r) = timers r - count_list evs TimerElapsed
       \<and> \<not> netInfo_listening (run evs r) \<and> \<not> appState_listening (run evs r)"
  using assms
proof (induction evs arbitrary: r)
  case Nil
  then show ?case by simp
next
  case (Cons ev evs)
  note d = dispatch_unsubscribed [OF Cons.prems, of ev]
  note ih = Cons.IH [OF d(1,2)]
  show ?case
  proof (cases "ev = TimerElapsed")
    case True
    show ?thesis
    proof (cases "timers r")
      case 0
      with True ih d(3,4) show ?thesis by simp
    next
      case (Suc n)
      with True ih d(3,4) show ?thesis
        by (simp add: replicate_append_same)
    qed
  next
    case False
    with ih d(3,4) show ?thesis by simp
  qed
qed

lemmas monitor_defs =
  init_def handleNetworkChange_def handleAppStateChange_def destroy_def request_sync_def

lemma back_online_state:
  "unsubscribeNetInfo (offline_queue back_online)"
  "appStateSubscription (offline_queue back_online)"
  "timers back_online = 1" "sync_requests back_online = []"
  "netInfo_listening back_online" "appState_listening back_online"
  "isConnected (offline_queue back_online)"
  "pending (offline_queue back_online) = [sample_item ''1700000000500-k3x9'' 0]"
  by (simp_all add: back_online_def started_offline_def monitor_defs model_defs)

subsection \<open>The flag is held through the whole pass\<close>

lemma try_delivery_keeps_flag: "syncInProgress (fst (try_delivery cb x q)) = syncInProgress q"
  by (cases "cb x")
     (auto simp: try_delivery_def emit_def Let_def split: prod.splits sum.splits bool.splits)

lemma catch_delivery_keeps_flag: "syncInProgress (fst (catch_delivery e x q)) = syncInProgress q"
  by (auto simp: catch_delivery_def emit_def Let_def split: prod.splits sum.splits)

lemma sync_item_keeps_flag: "syncInProgress (fst (sync_item cb x q)) = syncInProgress q"
proof (cases "retryCount x \<ge> effectiveMaxRetries q")
  case True
  then show ?thesis
    by (auto simp: sync_item_def emit_def Let_def split: prod.splits sum.splits)
next
  case False
  obtain q1 x1 r where t: "try_delivery cb x q = (q1, x1, r)"
    by (cases "try_delivery cb x q") auto
  then have "syncInProgress q1 = syncInProgress q"
    using try_delivery_keeps_flag [of cb x q] by simp
  with False t show ?thesis
    using catch_delivery_keeps_flag [of _ x1 q1]
    by (cases r) (simp_all add: sync_item_def)
qed

lemma item_states_in_progress:
  "syncInProgress q \<Longrightarrow> \<forall>q' \<in> set (item_states cb x q). syncInProgress q'"
  using try_delivery_keeps_flag [of cb x q]
  by (cases "try_delivery cb x q") (auto simp: item_states_def emit_def)

lemma loop_states_in_progress:
  "syncInProgress q \<Longrightarrow> \<forall>q' \<in> set (loop_states cb xs q). syncInProgress q'"
proof (induction xs arbitrary: q)
  case Nil
  then show ?case by simp
next
  case (Cons x xs)
  have "syncInProgress (fst (sync_item cb x q))"
    using Cons.prems by (simp add: sync_item_keeps_flag)
  with Cons item_states_in_progress [OF Cons.prems, of cb x] show ?case
    by (cases "sync_item cb x q") (auto split: sum.splits)
qed

lemma flag_held_states_in_progress: "\<forall>q' \<in> set (flag_held_states q). syncInProgress q'"
proof (cases "\<not> isConnected q \<or> syncInProgress q \<or> syncCallback q = None")
  case True
  then show ?thesis by (auto simp: flag_held_states_def)
next
  case False
  then obtain cb where cb: "syncCallback q = Some cb" by auto
  let ?q1 = "emit OnSyncStart (q\<lparr>syncInProgress := True\<rparr>)"
  obtain s1 xs where g: "getPending (asyncStorage ?q1) = (s1, xs)"
    by (cases "getPending (asyncStorage ?q1)")
  have "syncInProgress (?q1\<lparr>asyncStorage := s1\<rparr>)" by (simp add: emit_def)
  then have "\<forall>q' \<in> set (loop_states cb xs (?q1\<lparr>asyncStorage := s1\<rparr>)). syncInProgress q'"
    by (rule loop_states_in_progress)
  with False cb g show ?thesis
    by (simp add: flag_held_states_def Let_def emit_def)
qed

text \<open>
  A write rejected inside the \<open>try\<close> block: the \<open>catch\<close> block increments the record a second
  time, so one failed delivery raises the stored count by 2.
\<close>

lemma rejected_write_increments_twice:
  "map retryCount (pending (sample_queue (always (Resolves False))
                              (full_disk [sample_item ''1700000000000-4fzyo82'' 0])))
     = [0]
   \<and> map retryCount (pending (fst (sync (sample_queue (always (Resolves False))
                              (full_disk [sample_item ''1700000000000-4fzyo82'' 0])))))
     = [2]
   \<and> snd (sync (sample_queue (always (Resolves False))
                  (full_disk [sample_item ''1700000000000-4fzyo82'' 0])))
     = Inr \<lparr>succeeded = 0, failed = 1\<rparr>"
  by (simp add: full_disk_def model_defs sample_item_def)

text \<open>The last state with the flag held is the one the \<open>finally\<close> block starts from.\<close>

lemma loop_states_nonempty: "loop_states cb xs q \<noteq> []"
  by (cases xs) simp_all

lemma sync_loop_last_state: "fst (sync_loop cb xs q c) = last (loop_states cb xs q)"
proof (induction xs arbitrary: q c)
  case Nil
  then show ?case by simp
next
  case (Cons x xs)
  obtain q' r where s: "sync_item cb x q = (q', r)" by (cases "sync_item cb x q")
  show ?case
  proof (cases r)
    case (Inl e)
    with s show ?thesis by simp
  next
    case (Inr t)
    with s Cons.IH [of q'] show ?thesis
      by (cases t) (simp_all add: loop_states_nonempty)
  qed
qed

lemma sync_ends_pass:
  assumes "isConnected q" and "\<not> syncInProgress q" and "syncCallback q \<noteq> None"
  shows "\<exists>c :: counts. fst (sync q)
           = emit (OnSyncComplete (succeeded c) (failed c))
               ((last (flag_held_states q))\<lparr>syncInProgress := False\<rparr>)"
proof -
  from assms(3) obtain cb where cb: "syncCallback q = Some cb" by auto
  let ?q1 = "emit OnSyncStart (q\<lparr>syncInProgress := True\<rparr>)"
  obtain s1 xs where g: "getPending (asyncStorage ?q1) = (s1, xs)"
    by (cases "getPending (asyncStorage ?q1)")
  let ?q2 = "?q1\<lparr>asyncStorage := s1\<rparr>"
  obtain q3 c ex where l: "sync_loop cb xs ?q2 \<lparr>succeeded = 0, failed = 0\<rparr> = (q3, c, ex)"
    by (cases "sync_loop cb xs ?q2 \<lparr>succeeded = 0, failed = 0\<rparr>")
  then have "q3 = last (loop_states cb xs ?q2)"
    using sync_loop_last_state [of cb xs ?q2 "\<lparr>succeeded = 0, failed = 0\<rparr>"] by simp
  then have a: "last (flag_held_states q) = q3"
    using assms(1,2) cb g by (simp add: flag_held_states_def Let_def loop_states_nonempty)
  have b: "fst (sync q) = emit (OnSyncComplete (succeeded c) (failed c)) (q3\<lparr>syncInProgress := False\<rparr>)"
    using assms(1,2) cb g l by (simp add: sync_def Let_def)
  show ?thesis
    unfolding a using b by blast
qed

lemma last_pass_state:
  assumes "ready cb q"
  shows "last (pass_states q) = fst (sync q)" and "fst (sync q) \<in> set (pass_states q)"
  using assms by (simp_all add: pass_states_def ready_def)

subsection \<open>The delivery invocations of a pass\<close>

lemma deliveries_events_of:
  "deliveries (events_of cb m x) = (if retryCount x \<ge> m then [] else [x])"
  by (cases "cb x") (auto simp: events_of_def split: bool.splits)

lemma deliveries_pass_events:
  "deliveries (concat (map (events_of cb m) xs)) = filter (\<lambda>x. retryCount x < m) xs"
  by (induction xs) (simp_all add: deliveries_append deliveries_events_of)

lemma sync_ready_calls:
  assumes "ready cb q" and "distinct (map item_id (pending q))"
  shows "calls (fst (sync q)) =
           calls q @ [OnSyncStart]
           @ concat (map (events_of cb (effectiveMaxRetries q)) (pending q))
           @ [OnSyncComplete (succeeded (pass_counts cb (effectiveMaxRetries q) (pending q)))
                (failed (pass_counts cb (effectiveMaxRetries q) (pending q)))]"
    and "deliveries (calls (fst (sync q)))
           = deliveries (calls q) @ filter (\<lambda>x. retryCount x < effectiveMaxRetries q) (pending q)"
proof -
  show c: "calls (fst (sync q)) =
           calls q @ [OnSyncStart]
           @ concat (map (events_of cb (effectiveMaxRetries q)) (pending q))
           @ [OnSyncComplete (succeeded (pass_counts cb (effectiveMaxRetries q) (pending q)))
                (failed (pass_counts cb (effectiveMaxRetries q) (pending q)))]"
    using assms sync_reliable_proj(8) [of q cb] by (simp add: ready_def)
  show "deliveries (calls (fst (sync q)))
           = deliveries (calls q) @ filter (\<lambda>x. retryCount x < effectiveMaxRetries q) (pending q)"
    unfolding c by (simp add: deliveries_append deliveries_pass_events)
qed

section \<open>Guard of the pass\<close>

text \<open>
  C5, as amended. Whenever \<open>sync()\<close> is invoked while offline, while the in-progress flag
  is set, or before a delivery function is registered, it returns zero counts and leaves
  the whole state as it was: the stored queue, the record of delivery invocations and of
  observer callbacks, and the flags. The flag is set in every state of a running pass from
  its start to its \<open>finally\<close> block, so a second call arriving there processes no record.
  The \<open>finally\<close> block clears the flag before it calls \<open>onSyncComplete\<close>: in that last
  state of the still unresolved call the flag is off, and a \<open>sync()\<close> made there (with
  working storage and distinct ids) runs a pass of its own, which counts every record still
  queued and attempts again each of them that is below the retry limit.
\<close>

theorem sync_guard_noop:
  "(\<not> isConnected q \<or> syncInProgress q \<or> syncCallback q = None
      \<longrightarrow> sync q = (q, Inr \<lparr>succeeded = 0, failed = 0\<rparr>))
   \<and> (\<forall>q' \<in> set (flag_held_states p). sync q' = (q', Inr \<lparr>succeeded = 0, failed = 0\<rparr>))
   \<and> (ready cb p \<and> distinct (map item_id (pending p))
        \<longrightarrow> last (pass_states p) \<in> set (pass_states p)
          \<and> last (pass_states p) = fst (sync p)
          \<and> \<not> syncInProgress (last (pass_states p))
          \<and> snd (sync (last (pass_states p)))
              = Inr (pass_counts cb (effectiveMaxRetries p) (pending (last (pass_states p))))
          \<and> deliveries (calls (fst (sync (last (pass_states p)))))
              = deliveries (calls (last (pass_states p)))
                @ filter (\<lambda>x. retryCount x < effectiveMaxRetries p)
                    (pending (last (pass_states p))))"
proof -
  have guard: "\<And>q. \<not> isConnected q \<or> syncInProgress q \<or> syncCallback q = None
      \<Longrightarrow> sync q = (q, Inr \<lparr>succeeded = 0, failed = 0\<rparr>)"
    by (simp add: sync_def)
  have held: "\<forall>q' \<in> set (flag_held_states p). sync q' = (q', Inr \<lparr>succeeded = 0, failed = 0\<rparr>)"
    using flag_held_states_in_progress [of p] guard by blast
  have after: "last (pass_states p) \<in> set (pass_states p)
          \<and> last (pass_states p) = fst (sync p)
          \<and> \<not> syncInProgress (last (pass_states p))
          \<and> snd (sync (last (pass_states p)))
              = Inr (pass_counts cb (effectiveMaxRetries p) (pending (last (pass_states p))))
          \<and> deliveries (calls (fst (sync (last (pass_states p)))))
              = deliveries (calls (last (pass_states p)))
                @ filter (\<lambda>x. retryCount x < effectiveMaxRetries p)
                    (pending (last (pass_states p)))"
    if rdy: "ready cb p" and dist: "distinct (map item_id (pending p))"
  proof -
    let ?p' = "fst (sync p)"
    note l = last_pass_state [OF rdy]
    have rdy': "ready cb ?p'" and mr: "maxRetries ?p' = maxRetries p"
      and pend: "pending ?p' = concat (map (left_in_queue cb (effectiveMaxRetries p)) (pending p))"
      using sync_ready [OF rdy dist] by simp_all
    have m: "effectiveMaxRetries ?p' = effectiveMaxRetries p"
      using mr by (rule effectiveMaxRetries_cong)
    have dist': "distinct (map item_id (pending ?p'))"
      unfolding pend using dist by (rule ids_after_pass)
    have idle: "\<not> syncInProgress ?p'"
      using rdy' by (simp add: ready_def)
    have res: "snd (sync ?p') = Inr (pass_counts cb (effectiveMaxRetries p) (pending ?p'))"
      using sync_ready(3) [OF rdy' dist'] unfolding m .
    have del: "deliveries (calls (fst (sync ?p')))
                 = deliveries (calls ?p')
                   @ filter (\<lambda>x. retryCount x < effectiveMaxRetries p) (pending ?p')"
      using sync_ready_calls(2) [OF rdy' dist'] unfolding m .
    show ?thesis
      unfolding l(1) using l(2) idle res del by simp
  qed
  from guard held after show ?thesis by blast
qed


theorem sync_guard_noop_witness:
  "sync ((sample_queue (always (Resolves True)) (working_storage [sample_item ''1-a'' 0]))
           \<lparr>isConnected := False\<rparr>)
     = ((sample_queue (always (Resolves True)) (working_storage [sample_item ''1-a'' 0]))
           \<lparr>isConnected := False\<rparr>, Inr \<lparr>succeeded = 0, failed = 0\<rparr>)
   \<and> sync ((sample_queue (always (Resolves True)) (working_storage [sample_item ''1-a'' 0]))
           \<lparr>syncInProgress := True\<rparr>)
     = ((sample_queue (always (Resolves True)) (working_storage [sample_item ''1-a'' 0]))
           \<lparr>syncInProgress := True\<rparr>, Inr \<lparr>succeeded = 0, failed = 0\<rparr>)
   \<and> sync (new_OfflineQueue (Some 3) (working_storage [sample_item ''1-a'' 0]))
     = (new_OfflineQueue (Some 3) (working_storage [sample_item ''1-a'' 0]),
        Inr \<lparr>succeeded = 0, failed = 0\<rparr>)
   \<and> sync (last (flag_held_states
                (sample_queue (always (Resolves True)) (working_storage [sample_item ''1-a'' 0]))))
     = (last (flag_held_states
                (sample_queue (always (Resolves True)) (working_storage [sample_item ''1-a'' 0]))),
        Inr \<lparr>succeeded = 0, failed = 0\<rparr>)
   \<and> deliveries (calls (last (flag_held_states
                (sample_queue (always (Resolves True)) (working_storage [sample_item ''1-a'' 0])))))
     = [sample_item ''1-a'' 0]
   \<and> last (pass_states single_enqueued) = fst (sync single_enqueued)
   \<and> \<not> syncInProgress (last (pass_states single_enqueued))
   \<and> snd (sync (last (pass_states single_enqueued))) = Inr \<lparr>succeeded = 0, failed = 1\<rparr>
   \<and> deliveries (calls (fst (sync (last (pass_states single_enqueued)))))
     = [queuedItem sample_draws sample_submission None,
        (queuedItem sample_draws sample_submission None)\<lparr>retryCount := 1\<rparr>]"
proof -
  let ?q = "sample_queue (always (Resolves True)) (working_storage [sample_item ''1-a'' 0])"
  let ?n = "new_OfflineQueue (Some 3) (working_storage [sample_item ''1-a'' 0])"
  let ?cb = "always (Resolves False)"
  let ?x = "queuedItem sample_draws sample_submission None"
  have a: "\<not> isConnected (?q\<lparr>isConnected := False\<rparr>)" by simp
  have b: "syncInProgress (?q\<lparr>syncInProgress := True\<rparr>)" by simp
  have c: "syncCallback ?n = None" by (simp add: new_OfflineQueue_def)
  have "flag_held_states ?q \<noteq> []"
    by (simp add: flag_held_states_def sample_queue_def setSyncCallback_def new_OfflineQueue_def
          Let_def split: prod.splits)
  then have d: "last (flag_held_states ?q) \<in> set (flag_held_states ?q)" by (rule last_in_set)
  have e: "deliveries (calls (last (flag_held_states ?q))) = [sample_item ''1-a'' 0]"
    by (simp add: flag_held_states_def item_states_def model_defs sample_item_def)
  have rdy: "ready ?cb single_enqueued"
    unfolding single_enqueued_def
    using on_storage_enqueue_ready(1) [OF ready_sample_queue [of ?cb "[]"]] .
  have pend: "pending single_enqueued = [?x]"
    unfolding single_enqueued_def
    using on_storage_enqueue_ready(2) [OF ready_sample_queue [of ?cb "[]"]]
    by (simp add: sample_queue_fields)
  have dist: "distinct (map item_id (pending single_enqueued))"
    unfolding pend by simp
  have m: "effectiveMaxRetries single_enqueued = 3"
    by (simp add: single_enqueued_def model_defs)
  have p1: "pending (fst (sync single_enqueued)) = [?x\<lparr>retryCount := 1\<rparr>]"
    and d1: "deliveries (calls (fst (sync single_enqueued))) = [?x]"
    by (simp_all add: single_enqueued_def model_defs)
  have cnt: "pass_counts ?cb 3 [?x\<lparr>retryCount := 1\<rparr>] = \<lparr>succeeded = 0, failed = 1\<rparr>"
    by (simp add: failing_counts always_def)
  have f: "filter (\<lambda>x. retryCount x < 3) [?x\<lparr>retryCount := 1\<rparr>] = [?x\<lparr>retryCount := 1\<rparr>]"
    by simp
  from sync_guard_noop [of "?q\<lparr>isConnected := False\<rparr>" single_enqueued ?cb] rdy dist
  have t0: "last (pass_states single_enqueued) = fst (sync single_enqueued)
     \<and> \<not> syncInProgress (last (pass_states single_enqueued))
     \<and> snd (sync (last (pass_states single_enqueued)))
         = Inr (pass_counts ?cb (effectiveMaxRetries single_enqueued)
                  (pending (last (pass_states single_enqueued))))
     \<and> deliveries (calls (fst (sync (last (pass_states single_enqueued)))))
         = deliveries (calls (last (pass_states single_enqueued)))
           @ filter (\<lambda>x. retryCount x < effectiveMaxRetries single_enqueued)
               (pending (last (pass_states single_enqueued)))"
    by blast
  then have l: "last (pass_states single_enqueued) = fst (sync single_enqueued)"
    by blast
  have third: "last (pass_states single_enqueued) = fst (sync single_enqueued)
     \<and> \<not> syncInProgress (last (pass_states single_enqueued))
     \<and> snd (sync (last (pass_states single_enqueued))) = Inr \<lparr>succeeded = 0, failed = 1\<rparr>
     \<and> deliveries (calls (fst (sync (last (pass_states single_enqueued)))))
         = [?x, ?x\<lparr>retryCount := 1\<rparr>]"
    using t0 unfolding l m p1 d1 cnt f by simp
  show ?thesis
    using sync_guard_noop [of "?q\<lparr>isConnected := False\<rparr>" ?q ?cb]
      sync_guard_noop [of "?q\<lparr>syncInProgress := True\<rparr>" ?q ?cb]
      sync_guard_noop [of ?n ?q ?cb] a b c d e third
    by blast
qed

text \<open>
  C5 as stated fails: a record is enqueued and a pass fails to deliver it; in the state in
  which \<open>onSyncComplete\<close> runs, before that call has resolved, a second \<open>sync()\<close> does not
  return zero counts: it delivers the record a second time and stores \<open>retryCount = 2\<close>.
\<close>

theorem sync_from_completion_observer_counterexample:
  "last (pass_states single_enqueued) \<in> set (pass_states single_enqueued)
   \<and> sync (last (pass_states single_enqueued))
       \<noteq> (last (pass_states single_enqueued), Inr \<lparr>succeeded = 0, failed = 0\<rparr>)
   \<and> snd (sync (last (pass_states single_enqueued))) = Inr \<lparr>succeeded = 0, failed = 1\<rparr>
   \<and> deliveries (calls (last (pass_states single_enqueued)))
       = [queuedItem sample_draws sample_submission None]
   \<and> deliveries (calls (fst (sync (last (pass_states single_enqueued)))))
       = [queuedItem sample_draws sample_submission None,
          (queuedItem sample_draws sample_submission None)\<lparr>retryCount := 1\<rparr>]
   \<and> map retryCount (pending (fst (sync (last (pass_states single_enqueued))))) = [2]"
  by (simp add: pass_states_def single_enqueued_def model_defs)

section \<open>A record whose delivery always fails\<close>

text \<open>
  C1, as amended. With \<open>maxRetries = 3\<close>, working storage, and a delivery function that
  never succeeds (it returns false or throws), one record enqueued into an empty queue is
  attempted once in each of the first three passes, each returning
  \<open>{succeeded: 0, failed: 1}\<close>. After the third pass the record is still queued, with
  \<open>retryCount = 3\<close>. The fourth \<open>sync()\<close> evicts it without a delivery attempt (it signals
  start, \<open>onSubmissionFailed\<close> with \<open>Max retries exceeded\<close>, and completion, and nothing
  else) and returns \<open>{succeeded: 0, failed: 1}\<close>; only the fifth call finds the queue empty
  and returns \<open>{succeeded: 0, failed: 0}\<close>.
\<close>

theorem three_failures_then_eviction:
  assumes rdy: "ready cb q" and three: "maxRetries q = Some 3" and empty: "pending q = []"
    and fails: "\<forall>x. cb x \<noteq> Resolves True"
    and q1: "q1 = fst (on_storage (enqueue d sub shot) q)"
  shows "pending q1 = [queuedItem d sub shot]
       \<and> snd (sync q1) = Inr \<lparr>succeeded = 0, failed = 1\<rparr>
       \<and> snd (sync (passes 1 q1)) = Inr \<lparr>succeeded = 0, failed = 1\<rparr>
       \<and> snd (sync (passes 2 q1)) = Inr \<lparr>succeeded = 0, failed = 1\<rparr>
       \<and> pending (passes 3 q1) = [(queuedItem d sub shot)\<lparr>retryCount := 3\<rparr>]
       \<and> deliveries (calls (passes 3 q1))
           = deliveries (calls q)
             @ [queuedItem d sub shot, (queuedItem d sub shot)\<lparr>retryCount := 1\<rparr>,
                (queuedItem d sub shot)\<lparr>retryCount := 2\<rparr>]
       \<and> snd (sync (passes 3 q1)) = Inr \<lparr>succeeded = 0, failed = 1\<rparr>
       \<and> calls (passes 4 q1)
           = calls (passes 3 q1)
             @ [OnSyncStart, OnSubmissionFailed (new_id d) ''Max retries exceeded'',
                OnSyncComplete 0 1]
       \<and> pending (passes 4 q1) = []
       \<and> snd (sync (passes 4 q1)) = Inr \<lparr>succeeded = 0, failed = 0\<rparr>"
proof -
  let ?x = "queuedItem d sub shot"
  have m: "\<And>q'. maxRetries q' = Some 3 \<Longrightarrow> effectiveMaxRetries q' = 3"
    by (simp add: effectiveMaxRetries_def)
  have r1: "ready cb q1" and p1: "pending q1 = [?x]" and m1: "maxRetries q1 = Some 3"
    and c1: "calls q1 = calls q"
    using on_storage_enqueue_ready [OF rdy, of d sub shot] three empty q1 by simp_all
  have x0: "retryCount ?x = 0" and xi: "item_id ?x = new_id d"
    by (simp_all add: queuedItem_def)
  let ?q2 = "fst (sync q1)"
  have r2: "ready cb ?q2" and m2: "maxRetries ?q2 = Some 3"
    and s1: "snd (sync q1) = Inr \<lparr>succeeded = 0, failed = 1\<rparr>"
    and p2: "pending ?q2 = [?x\<lparr>retryCount := 1\<rparr>]"
    using single_pass [OF r1 p1] m [OF m1] m1 fails x0
    by (simp_all add: failing_counts failing_left)
  have d2: "deliveries (calls ?q2) = deliveries (calls q) @ [?x]"
    using sync_ready_calls(2) [OF r1] p1 m [OF m1] x0 c1 by simp
  let ?q3 = "fst (sync ?q2)"
  have r3: "ready cb ?q3" and m3: "maxRetries ?q3 = Some 3"
    and s2: "snd (sync ?q2) = Inr \<lparr>succeeded = 0, failed = 1\<rparr>"
    and p3: "pending ?q3 = [?x\<lparr>retryCount := 2\<rparr>]"
    using single_pass [OF r2 p2] m [OF m2] m2 fails
    by (simp_all add: failing_counts failing_left)
  have d3: "deliveries (calls ?q3) = deliveries (calls q) @ [?x, ?x\<lparr>retryCount := 1\<rparr>]"
    using sync_ready_calls(2) [OF r2] p2 m [OF m2] d2 by simp
  let ?q4 = "fst (sync ?q3)"
  have r4: "ready cb ?q4" and m4: "maxRetries ?q4 = Some 3"
    and s3: "snd (sync ?q3) = Inr \<lparr>succeeded = 0, failed = 1\<rparr>"
    and p4: "pending ?q4 = [?x\<lparr>retryCount := 3\<rparr>]"
    using single_pass [OF r3 p3] m [OF m3] m3 fails
    by (simp_all add: failing_counts failing_left)
  have d4: "deliveries (calls ?q4)
              = deliveries (calls q) @ [?x, ?x\<lparr>retryCount := 1\<rparr>, ?x\<lparr>retryCount := 2\<rparr>]"
    using sync_ready_calls(2) [OF r3] p3 m [OF m3] d3 by simp
  let ?q5 = "fst (sync ?q4)"
  have r5: "ready cb ?q5"
    and s4: "snd (sync ?q4) = Inr \<lparr>succeeded = 0, failed = 1\<rparr>"
    and p5: "pending ?q5 = []"
    using single_pass [OF r4 p4] m [OF m4] fails
    by (simp_all add: failing_counts evicted_left)
  have c5: "calls ?q5 = calls ?q4
              @ [OnSyncStart, OnSubmissionFailed (new_id d) ''Max retries exceeded'',
                 OnSyncComplete 0 1]"
    using sync_ready_calls(1) [OF r4] p4 m [OF m4] fails xi
    by (simp add: events_of_def failing_counts)
  have s5: "snd (sync ?q5) = Inr \<lparr>succeeded = 0, failed = 0\<rparr>"
    using empty_pass [OF r5 p5] by simp
  have unroll: "passes 1 q1 = ?q2" "passes 2 q1 = ?q3" "passes 3 q1 = ?q4" "passes 4 q1 = ?q5"
    by (simp_all add: eval_nat_numeral)
  show ?thesis
    unfolding unroll using p1 s1 s2 s3 p4 d4 s4 c5 p5 s5 by simp
qed

theorem three_failures_then_eviction_witness:
  "pending single_enqueued = [queuedItem sample_draws sample_submission None]
   \<and> snd (sync single_enqueued) = Inr \<lparr>succeeded = 0, failed = 1\<rparr>
   \<and> snd (sync (passes 1 single_enqueued)) = Inr \<lparr>succeeded = 0, failed = 1\<rparr>
   \<and> snd (sync (passes 2 single_enqueued)) = Inr \<lparr>succeeded = 0, failed = 1\<rparr>
   \<and> pending (passes 3 single_enqueued)
       = [(queuedItem sample_draws sample_submission None)\<lparr>retryCount := 3\<rparr>]
   \<and> deliveries (calls (passes 3 single_enqueued))
       = [queuedItem sample_draws sample_submission None,
          (queuedItem sample_draws sample_submission None)\<lparr>retryCount := 1\<rparr>,
          (queuedItem sample_draws sample_submission None)\<lparr>retryCount := 2\<rparr>]
   \<and> snd (sync (passes 3 single_enqueued)) = Inr \<lparr>succeeded = 0, failed = 1\<rparr>
   \<and> calls (passes 4 single_enqueued)
       = calls (passes 3 single_enqueued)
         @ [OnSyncStart, OnSubmissionFailed (new_id sample_draws) ''Max retries exceeded'',
            OnSyncComplete 0 1]
   \<and> pending (passes 4 single_enqueued) = []
   \<and> snd (sync (passes 4 single_enqueued)) = Inr \<lparr>succeeded = 0, failed = 0\<rparr>"
proof -
  have "\<forall>x. always (Resolves False) x \<noteq> Resolves True"
    by (simp add: always_def)
  then show ?thesis
    using three_failures_then_eviction
      [of "always (Resolves False)" "sample_queue (always (Resolves False)) (working_storage [])"
          single_enqueued sample_draws sample_submission None]
      ready_sample_queue [of "always (Resolves False)" "[]"]
    by (simp add: sample_queue_fields single_enqueued_def)
qed

text \<open>
  C1 as stated fails: in the scenario of the claim the record is still in the queue after
  the third pass, and the fourth call reports one failure, not zero.
\<close>

theorem evicted_by_third_pass_counterexample:
  "pending (passes 3 single_enqueued) \<noteq> []
   \<and> map retryCount (pending (passes 3 single_enqueued)) = [3]
   \<and> snd (sync (passes 3 single_enqueued)) \<noteq> Inr \<lparr>succeeded = 0, failed = 0\<rparr>
   \<and> snd (sync (passes 3 single_enqueued)) = Inr \<lparr>succeeded = 0, failed = 1\<rparr>"
  unfolding passes_unroll by (simp add: single_enqueued_def model_defs)

section \<open>Draining a queue whose deliveries all succeed\<close>

text \<open>
  C6. For every list of requests, enqueuing them into an empty queue (each record starts
  with \<open>retryCount = 0\<close>, below a positive maximum) and running one pass with a delivery
  function that succeeds on every record returns \<open>{succeeded: N, failed: 0}\<close> for the
  \<open>N\<close> requests, leaves the stored queue empty, and invokes the delivery function on the
  records in the order they were enqueued. The storage is taken to work; the ids need not
  be distinct.
\<close>

theorem drain_after_enqueues:
  assumes rdy0: "ready cb q" and empty: "pending q = []" and pos: "0 < effectiveMaxRetries q"
    and ok: "\<forall>x. cb x = Resolves True"
  shows "snd (sync (enqueue_all reqs q)) = Inr \<lparr>succeeded = length reqs, failed = 0\<rparr>
       \<and> pending (fst (sync (enqueue_all reqs q))) = []
       \<and> deliveries (calls (fst (sync (enqueue_all reqs q))))
           = deliveries (calls q) @ map (\<lambda>(d, sub, shot). queuedItem d sub shot) reqs"
proof -
  let ?q = "enqueue_all reqs q"
  let ?items = "map (\<lambda>(d, sub, shot). queuedItem d sub shot) reqs"
  note e = enqueue_all_ready [OF rdy0, of reqs]
  from e have rdy: "ready cb ?q" by (rule conjunct1)
  from e have "pending ?q = pending q @ ?items" by blast
  then have p: "pending ?q = ?items" by (simp only: empty append_Nil)
  from e have mr: "maxRetries ?q = maxRetries q" by blast
  from e have c: "calls ?q = calls q" by blast
  have m: "effectiveMaxRetries ?q = effectiveMaxRetries q"
    using mr by (rule effectiveMaxRetries_cong)
  have all: "\<forall>x \<in> set (pending ?q). retryCount x < effectiveMaxRetries ?q \<and> cb x = Resolves True"
  proof
    fix x assume "x \<in> set (pending ?q)"
    then have "retryCount x = 0"
      using fresh_items_zero [of reqs] unfolding p by blast
    with pos ok show "retryCount x < effectiveMaxRetries ?q \<and> cb x = Resolves True"
      unfolding m by simp
  qed
  note s = sync_all_success [OF rdy all]
  have "snd (sync ?q) = Inr \<lparr>succeeded = length reqs, failed = 0\<rparr>"
    using s(1) unfolding p by (simp only: length_map)
  moreover have "pending (fst (sync ?q)) = []"
    by (rule s(2))
  moreover have "deliveries (calls (fst (sync ?q))) = deliveries (calls q) @ ?items"
    using s(3) unfolding p c .
  ultimately show ?thesis by blast
qed

theorem drain_after_enqueues_witness:
  "snd (sync (enqueue_all sample_requests
                (sample_queue (always (Resolves True)) (working_storage []))))
     = Inr \<lparr>succeeded = 2, failed = 0\<rparr>
   \<and> pending (fst (sync (enqueue_all sample_requests
                (sample_queue (always (Resolves True)) (working_storage []))))) = []
   \<and> deliveries (calls (fst (sync (enqueue_all sample_requests
                (sample_queue (always (Resolves True)) (working_storage []))))))
     = [queuedItem sample_draws sample_submission None,
        queuedItem \<lparr>date_now_id = 1700000000500, math_random = ''0.k3x9'',
                     date_now_created = 1700000000500\<rparr>
          (sample_submission\<lparr>title := ''Dark mode''\<rparr>) (Some ''file:///tmp/shot.png'')]"
proof -
  let ?cb = "always (Resolves True)"
  let ?q = "sample_queue ?cb (working_storage [])"
  have h1: "ready ?cb ?q" by (rule ready_sample_queue)
  have h2: "pending ?q = []" by (simp add: sample_queue_fields)
  have h3: "0 < effectiveMaxRetries ?q" by (simp add: effectiveMaxRetries_sample_queue)
  have h4: "\<forall>x. ?cb x = Resolves True" by (simp add: always_def)
  have n: "length sample_requests = 2" by (simp add: sample_requests_def)
  have items: "map (\<lambda>(d, sub, shot). queuedItem d sub shot) sample_requests
     = [queuedItem sample_draws sample_submission None,
        queuedItem \<lparr>date_now_id = 1700000000500, math_random = ''0.k3x9'',
                     date_now_created = 1700000000500\<rparr>
          (sample_submission\<lparr>title := ''Dark mode''\<rparr>) (Some ''file:///tmp/shot.png'')]"
    by (simp add: sample_requests_def)
  have c: "deliveries (calls ?q) = []" by (simp add: sample_queue_fields)
  show ?thesis
    using drain_after_enqueues [OF h1 h2 h3 h4, of sample_requests]
    unfolding n items c by simp
qed

section \<open>The retry counter and the id\<close>

text \<open>
  C3, as amended. \<open>enqueue\<close> stores the new record last, with \<open>retryCount = 0\<close> and the id
  built from the clock reading and the random draw; the id is not checked against the ids
  already queued. In a pass over a queue whose ids are pairwise distinct, with working
  storage, the stored queue afterwards is exactly the records whose delivery was attempted
  and failed (returned false or threw), in their order, each identical to the record
  before but for \<open>retryCount\<close>, which is larger by exactly 1; delivered and evicted records
  are gone. So no pass changes an id or lowers a count. What happens to the count when a
  storage write is rejected is left open here.
\<close>

theorem retry_count_by_one:
  assumes rdy: "ready cb q" and dist: "distinct (map item_id (pending q))" and rel: "reliable s"
  shows "snd (enqueue d sub shot s) = Inr (new_id d)
       \<and> contents (fst (enqueue d sub shot s))
           = contents s @ [\<lparr>item_id = new_id d, submission = sub, screenshotUri = shot,
                             createdAt = date_now_created d, retryCount = 0\<rparr>]
       \<and> pending (fst (sync q))
           = concat (map (left_in_queue cb (effectiveMaxRetries q)) (pending q))
       \<and> (\<forall>x \<in> set (pending q).
             retryCount x < effectiveMaxRetries q \<and> cb x \<noteq> Resolves True
             \<longrightarrow> x\<lparr>retryCount := retryCount x + 1\<rparr> \<in> set (pending (fst (sync q))))
       \<and> (\<forall>y \<in> set (pending (fst (sync q))).
             \<exists>x \<in> set (pending q). y = x\<lparr>retryCount := retryCount x + 1\<rparr>
               \<and> retryCount x < effectiveMaxRetries q \<and> cb x \<noteq> Resolves True)"
proof -
  obtain s' where "enqueue d sub shot s = (s', Inr (new_id d))"
    "contents s' = contents s @ [queuedItem d sub shot]"
    using enqueue_reliable [OF rel, of d sub shot] by blast
  then have enq: "snd (enqueue d sub shot s) = Inr (new_id d)"
    "contents (fst (enqueue d sub shot s))
       = contents s @ [\<lparr>item_id = new_id d, submission = sub, screenshotUri = shot,
                         createdAt = date_now_created d, retryCount = 0\<rparr>]"
    by (simp_all add: queuedItem_def)
  have eq: "pending (fst (sync q))
              = concat (map (left_in_queue cb (effectiveMaxRetries q)) (pending q))"
    using sync_ready(4) [OF rdy dist] .
  have up: "\<forall>x \<in> set (pending q).
             retryCount x < effectiveMaxRetries q \<and> cb x \<noteq> Resolves True
             \<longrightarrow> x\<lparr>retryCount := retryCount x + 1\<rparr> \<in> set (pending (fst (sync q)))"
    unfolding eq using kept_after_failure [of _ "pending q" "effectiveMaxRetries q" cb] by blast
  have older: "\<forall>y \<in> set (pending (fst (sync q))).
             \<exists>x \<in> set (pending q). y = x\<lparr>retryCount := retryCount x + 1\<rparr>
               \<and> retryCount x < effectiveMaxRetries q \<and> cb x \<noteq> Resolves True"
    unfolding eq using origin_of_kept [of _ cb "effectiveMaxRetries q" "pending q"] by blast
  from enq eq up older show ?thesis by blast
qed

theorem retry_count_by_one_witness:
  "snd (enqueue sample_draws sample_submission None (working_storage [])) = Inr (new_id sample_draws)
   \<and> contents (fst (enqueue sample_draws sample_submission None (working_storage [])))
       = [\<lparr>item_id = new_id sample_draws, submission = sample_submission, screenshotUri = None,
            createdAt = 1700000000001, retryCount = 0\<rparr>]
   \<and> pending (fst (sync two_pending))
       = [sample_item ''1700000000000-4fzyo82'' 1, sample_item ''1700000000500-k3x9'' 3]"
proof -
  let ?cb = "always (Rejects (Error ''timeout''))"
  let ?xs = "[sample_item ''1700000000000-4fzyo82'' 0, sample_item ''1700000000500-k3x9'' 2]"
  have h1: "ready ?cb two_pending"
    unfolding two_pending_def by (rule ready_sample_queue)
  have p: "pending two_pending = ?xs"
    by (simp add: two_pending_def sample_queue_fields)
  have h2: "distinct (map item_id (pending two_pending))"
    unfolding p by (simp add: sample_item_def)
  have h3: "reliable (working_storage [])"
    by (simp add: working_storage_def reliable_def reads_ok_def writes_ok_def)
  have m: "effectiveMaxRetries two_pending = 3"
    unfolding two_pending_def by (rule effectiveMaxRetries_sample_queue)
  have l: "concat (map (left_in_queue ?cb 3) ?xs)
             = [sample_item ''1700000000000-4fzyo82'' 1, sample_item ''1700000000500-k3x9'' 3]"
    by (simp add: left_in_queue_def always_def sample_item_def)
  have c: "contents (working_storage []) = []"
    by (simp add: working_storage_def contents_def)
  show ?thesis
    using retry_count_by_one [OF h1 h2 h3, of sample_draws sample_submission None]
    unfolding p m l c by (simp add: sample_draws_def)
qed

text \<open>
  C3 as stated fails: two calls of \<open>enqueue\<close> that read the same clock value and draw the
  same random number return the same id. In the next pass both deliveries are attempted
  and fail, but \<open>update\<close> writes each record over the first one with that id: the first
  record is replaced by a copy of the second, and the second is stored with its
  \<open>retryCount\<close> still 0.
\<close>

theorem id_reuse_counterexample:
  "snd (on_storage (enqueue sample_draws sample_submission None)
          (sample_queue (always (Resolves False)) (working_storage [])))
     = Inr (new_id sample_draws)
   \<and> snd (on_storage (enqueue sample_draws (sample_submission\<lparr>title := ''Second report''\<rparr>) None)
          single_enqueued)
     = Inr (new_id sample_draws)
   \<and> map (\<lambda>x. (item_id x, title (submission x), retryCount x)) (pending twice_enqueued)
     = [(new_id sample_draws, ''App crashes on launch'', 0),
        (new_id sample_draws, ''Second report'', 0)]
   \<and> deliveries (calls (fst (sync twice_enqueued))) = pending twice_enqueued
   \<and> snd (sync twice_enqueued) = Inr \<lparr>succeeded = 0, failed = 2\<rparr>
   \<and> map (\<lambda>x. (item_id x, title (submission x), retryCount x)) (pending (fst (sync twice_enqueued)))
     = [(new_id sample_draws, ''Second report'', 1),
        (new_id sample_draws, ''Second report'', 0)]"
  by (simp add: twice_enqueued_def single_enqueued_def model_defs sample_submission_def)

section \<open>What leaves \<open>sync\<close> as an exception\<close>




section \<open>A delivery that returns false\<close>

text \<open>
  C4. The code at the returned-failure branch: with working writes and a record below the
  retry limit, a delivery that returns false is counted as failed and nothing is
  signalled (the only entry added to the record of calls is the delivery invocation
  itself), whereas a delivery that throws is counted as failed and signals
  \<open>onSubmissionFailed\<close> with the error's message.
\<close>

theorem returned_failure_is_silent:
  assumes w: "writes_ok (asyncStorage q)" and below: "retryCount x < effectiveMaxRetries q"
    and returned: "cb x = Resolves False" and threw: "cb' x = Rejects e"
  shows "calls (fst (sync_item cb x q)) = calls q @ [SyncCallback x]
       \<and> snd (sync_item cb x q) = Inr Failed
       \<and> calls (fst (sync_item cb' x q))
           = calls q @ [SyncCallback x, OnSubmissionFailed (item_id x) (message_of e)]
       \<and> snd (sync_item cb' x q) = Inr Failed"
proof -
  obtain s1 where "sync_item cb x q =
      (q\<lparr>asyncStorage := s1, calls := calls q @ events_of cb (effectiveMaxRetries q) x\<rparr>,
       Inr (tally_of cb (effectiveMaxRetries q) x))"
    using sync_item_writes_ok [OF w, of cb x] by blast
  moreover obtain s2 where "sync_item cb' x q =
      (q\<lparr>asyncStorage := s2, calls := calls q @ events_of cb' (effectiveMaxRetries q) x\<rparr>,
       Inr (tally_of cb' (effectiveMaxRetries q) x))"
    using sync_item_writes_ok [OF w, of cb' x] by blast
  ultimately show ?thesis
    using below returned threw by (simp add: events_of_def tally_of_def)
qed

theorem returned_failure_is_silent_witness:
  "calls (fst (sync_item (always (Resolves False)) (queuedItem sample_draws sample_submission None)
                 single_enqueued))
     = [SyncCallback (queuedItem sample_draws sample_submission None)]
   \<and> snd (sync_item (always (Resolves False)) (queuedItem sample_draws sample_submission None)
            single_enqueued) = Inr Failed
   \<and> calls (fst (sync_item (always (Rejects (Error ''timeout'')))
                 (queuedItem sample_draws sample_submission None) single_enqueued))
     = [SyncCallback (queuedItem sample_draws sample_submission None),
        OnSubmissionFailed (new_id sample_draws) ''timeout'']
   \<and> snd (sync_item (always (Rejects (Error ''timeout'')))
            (queuedItem sample_draws sample_submission None) single_enqueued) = Inr Failed"
proof -
  let ?x = "queuedItem sample_draws sample_submission None"
  have h1: "writes_ok (asyncStorage single_enqueued)"
    by (simp add: single_enqueued_def model_defs writes_ok_def)
  have h2: "retryCount ?x < effectiveMaxRetries single_enqueued"
    by (simp add: single_enqueued_def model_defs)
  have h3: "always (Resolves False) ?x = Resolves False" by (simp add: always_def)
  have h4: "always (Rejects (Error ''timeout'')) ?x = Rejects (Error ''timeout'')"
    by (simp add: always_def)
  have c: "calls single_enqueued = []"
    by (simp add: single_enqueued_def model_defs)
  have i: "item_id ?x = new_id sample_draws" by (simp add: queuedItem_def)
  show ?thesis
    using returned_failure_is_silent
      [where q = single_enqueued and x = ?x and cb = "always (Resolves False)"
         and cb' = "always (Rejects (Error ''timeout''))" and e = "Error ''timeout''",
       OF h1 h2 h3 h4]
    unfolding c i by (simp add: message_of_def)
qed

section \<open>Submitting while offline\<close>

text \<open>
  C7, as amended. For every submission made through \<open>submit()\<close> while the widget is
  initialised and offline, with no other submission in flight and the storage working,
  \<open>submit()\<close> returns success with the identifier \<open>offline-\<close> followed by the queue id,
  and the pending count is larger by exactly 1 afterwards.
\<close>

theorem offline_submit_queues:
  assumes off: "\<not> isOnline (Some w)" and idle: "\<not> isSubmitting w"
    and rel: "reliable (asyncStorage (offlineQueue w))"
  shows "snd (submit env fb (Some w))
           = \<lparr>success = True, feedback_id = Some (''offline-'' @ new_id (enqueue_draws env)),
              error = None\<rparr>
       \<and> snd (widget_getPendingCount (fst (submit env fb (Some w))))
           = snd (widget_getPendingCount (Some w)) + 1"
proof -
  let ?w1 = "notify OnSubmitStart (w\<lparr>isSubmitting := True\<rparr>)"
  let ?sub = "build_submission (getContext_first env) fb ?w1"
  let ?r = "queueSubmission (enqueue_draws env) ?sub (given_screenshotUri fb) ?w1"
  have rel1: "reliable (asyncStorage (offlineQueue ?w1))"
    using rel by (simp add: notify_def)
  note qs = queueSubmission_reliable [OF rel1, of "enqueue_draws env" ?sub "given_screenshotUri fb"]
  have off1: "\<not> getOnlineStatus (offlineQueue ?w1)"
    using off by (simp add: isOnline_def notify_def)
  have sf: "submitFeedback env fb w = ((fst ?r)\<lparr>isSubmitting := False\<rparr>, snd ?r)"
    using idle off1 by (simp add: submitFeedback_def Let_def split: prod.splits)
  have res: "snd (submit env fb (Some w)) = snd ?r"
    and st: "fst (submit env fb (Some w)) = Some ((fst ?r)\<lparr>isSubmitting := False\<rparr>)"
    using sf by (simp_all add: submit_def)
  have "reliable (asyncStorage (offlineQueue ((fst ?r)\<lparr>isSubmitting := False\<rparr>)))"
    using qs(2) by simp
  then have "snd (widget_getPendingCount (fst (submit env fb (Some w))))
               = length (pending (offlineQueue ((fst ?r)\<lparr>isSubmitting := False\<rparr>)))"
    unfolding st by (rule widget_getPendingCount_reliable)
  also have "\<dots> = length (pending (offlineQueue ?w1)) + 1"
    using qs(3) by simp
  also have "\<dots> = snd (widget_getPendingCount (Some w)) + 1"
    using widget_getPendingCount_reliable [OF rel] by (simp add: notify_def)
  finally show ?thesis
    using res qs(1) by simp
qed

theorem offline_submit_queues_witness:
  "snd (submit (sample_env (Throws (Error ''Network request failed''))) sample_feedback
          (Some (sample_widget False False)))
     = \<lparr>success = True, feedback_id = Some (''offline-'' @ new_id sample_draws), error = None\<rparr>
   \<and> snd (widget_getPendingCount
            (fst (submit (sample_env (Throws (Error ''Network request failed''))) sample_feedback
                    (Some (sample_widget False False)))))
     = 2"
proof -
  let ?w = "sample_widget False False"
  have h1: "\<not> isOnline (Some ?w)"
    by (simp add: isOnline_def getOnlineStatus_def sample_widget_def)
  have h2: "\<not> isSubmitting ?w"
    by (simp add: sample_widget_def)
  have h3: "reliable (asyncStorage (offlineQueue ?w))"
    by (simp add: sample_widget_def sample_queue_def setSyncCallback_def new_OfflineQueue_def
          working_storage_def reliable_def reads_ok_def writes_ok_def)
  have n: "snd (widget_getPendingCount (Some ?w)) = 1"
    by (simp add: sample_widget_def widget_getPendingCount_def on_storage_def
          getPendingCount_def getQueue_def getItem_def sample_queue_def setSyncCallback_def
          new_OfflineQueue_def working_storage_def)
  have d: "enqueue_draws (sample_env (Throws (Error ''Network request failed''))) = sample_draws"
    by (simp add: sample_env_def)
  show ?thesis
    using offline_submit_queues [OF h1 h2 h3,
        of "sample_env (Throws (Error ''Network request failed''))" sample_feedback]
    unfolding n d by simp
qed

text \<open>
  C7 as stated fails: while an earlier submission has not settled, \<open>submit()\<close> on an offline
  widget returns the failure \<open>Submission already in progress\<close> and queues nothing.
\<close>

theorem offline_submit_in_flight_counterexample:
  "\<not> isOnline (Some (sample_widget False True))
   \<and> submit (sample_env (Throws (Error ''Network request failed''))) sample_feedback
        (Some (sample_widget False True))
     = (Some (sample_widget False True),
        \<lparr>success = False, feedback_id = None, error = Some ''Submission already in progress''\<rparr>)
   \<and> snd (widget_getPendingCount (Some (sample_widget False True))) = 1"
  by (simp add: isOnline_def getOnlineStatus_def submit_def submitFeedback_def sample_widget_def
        widget_getPendingCount_def on_storage_def getPendingCount_def getQueue_def getItem_def
        sample_queue_def setSyncCallback_def new_OfflineQueue_def working_storage_def)

section \<open>A refused connection\<close>

text \<open>
  C2. The code at a refused connection: when the transport answers a submission of an
  online, idle widget with the error text \<open>connect ECONNREFUSED 127.0.0.1:443\<close>, returned
  in a failure response or thrown, \<open>submitFeedback\<close> returns that failure, signals
  \<open>onSubmitError\<close> and leaves the offline queue as it was: the text is not classified as
  a network error, since the marker \<open>ECONNREFUSED\<close> is compared in upper case with the
  lower-cased text (\<open>econnrefused_never_matches\<close>).
\<close>

theorem connection_refused_is_surfaced:
  assumes idle: "\<not> isSubmitting w" and on: "isOnline (Some w)"
    and answer: "\<forall>sub. transport_submitFeedback env sub
                    = Responds \<lparr>success = False, feedback_id = None, error = Some refused\<rparr>
                  \<or> transport_submitFeedback env sub = Throws (Error refused)"
  shows "snd (submitFeedback env fb w)
           = \<lparr>success = False, feedback_id = None, error = Some refused\<rparr>
       \<and> offlineQueue (fst (submitFeedback env fb w)) = offlineQueue w
       \<and> notified (fst (submitFeedback env fb w))
           = notified w @ [OnSubmitStart, OnSubmitError refused]"
proof -
  let ?w1 = "notify OnSubmitStart (w\<lparr>isSubmitting := True\<rparr>)"
  let ?sub = "build_submission (getContext_first env) fb ?w1"
  let ?resp = "\<lparr>success = False, feedback_id = None, error = Some refused\<rparr>"
  have on1: "getOnlineStatus (offlineQueue ?w1)"
    using on by (simp add: isOnline_def notify_def)
  have a: "after_response env fb ?sub ?resp ?w1 = (notify (OnSubmitError refused) ?w1, ?resp)"
    using refused_not_network refused_not_empty by (simp add: after_response_def)
  have b: "after_throw env fb (Error refused) ?w1 = (notify (OnSubmitError refused) ?w1, ?resp)"
    using refused_not_network by (simp add: after_throw_def)
  from answer have "transport_submitFeedback env ?sub = Responds ?resp
                    \<or> transport_submitFeedback env ?sub = Throws (Error refused)"
    by blast
  then have "submitFeedback env fb w
               = ((notify (OnSubmitError refused) ?w1)\<lparr>isSubmitting := False\<rparr>, ?resp)"
  proof
    assume "transport_submitFeedback env ?sub = Responds ?resp"
    with idle on1 a show ?thesis by (simp add: submitFeedback_def Let_def)
  next
    assume "transport_submitFeedback env ?sub = Throws (Error refused)"
    with idle on1 b show ?thesis by (simp add: submitFeedback_def Let_def)
  qed
  then show ?thesis by (simp add: notify_def)
qed

theorem connection_refused_is_surfaced_witness:
  "snd (submitFeedback (sample_env (Throws (Error refused))) sample_feedback (sample_widget True False))
     = \<lparr>success = False, feedback_id = None, error = Some refused\<rparr>
   \<and> offlineQueue (fst (submitFeedback (sample_env (Throws (Error refused))) sample_feedback
                          (sample_widget True False)))
     = offlineQueue (sample_widget True False)
   \<and> notified (fst (submitFeedback (sample_env (Throws (Error refused))) sample_feedback
                      (sample_widget True False)))
     = [OnSubmitStart, OnSubmitError refused]
   \<and> snd (submitFeedback
            (sample_env (Responds \<lparr>success = False, feedback_id = None, error = Some refused\<rparr>))
            sample_feedback (sample_widget True False))
     = \<lparr>success = False, feedback_id = None, error = Some refused\<rparr>"
proof -
  let ?w = "sample_widget True False"
  have h1: "\<not> isSubmitting ?w" by (simp add: sample_widget_def)
  have h2: "isOnline (Some ?w)"
    by (simp add: isOnline_def getOnlineStatus_def sample_widget_def)
  have h3: "\<forall>sub. transport_submitFeedback (sample_env (Throws (Error refused))) sub
                    = Responds \<lparr>success = False, feedback_id = None, error = Some refused\<rparr>
                  \<or> transport_submitFeedback (sample_env (Throws (Error refused))) sub
                    = Throws (Error refused)"
    by (simp add: sample_env_def)
  have h4: "\<forall>sub. transport_submitFeedback
                     (sample_env (Responds \<lparr>success = False, feedback_id = None, error = Some refused\<rparr>)) sub
                    = Responds \<lparr>success = False, feedback_id = None, error = Some refused\<rparr>
                  \<or> transport_submitFeedback
                     (sample_env (Responds \<lparr>success = False, feedback_id = None, error = Some refused\<rparr>)) sub
                    = Throws (Error refused)"
    by (simp add: sample_env_def)
  have n: "notified ?w = []" by (simp add: sample_widget_def)
  show ?thesis
    using connection_refused_is_surfaced [OF h1 h2 h3, of sample_feedback]
      connection_refused_is_surfaced [OF h1 h2 h4, of sample_feedback]
    unfolding n by simp
qed

section \<open>The facade before \<open>init\<close>\<close>

text \<open>
  C10. With no instance, \<open>submit()\<close> returns the failure \<open>FeedbackWidget not initialized\<close>,
  \<open>getPendingCount()\<close> returns 0, \<open>syncOffline()\<close> returns zero counts and \<open>isOnline()\<close>
  returns true; none of them throws and the instance stays absent.
\<close>

theorem uninitialized_facade_total:
  "submit env fb None
     = (None, \<lparr>success = False, feedback_id = None,
               error = Some ''FeedbackWidget not initialized''\<rparr>)
   \<and> widget_getPendingCount None = (None, 0)
   \<and> syncOffline None = (None, Inr \<lparr>succeeded = 0, failed = 0\<rparr>)
   \<and> isOnline None = True"
  by (simp add: submit_def widget_getPendingCount_def syncOffline_def isOnline_def)


theorem uninitialized_facade_total_witness:
  "submit (sample_env (Throws (Error ''Network request failed''))) sample_feedback None
     = (None, \<lparr>success = False, feedback_id = None,
               error = Some ''FeedbackWidget not initialized''\<rparr>)
   \<and> widget_getPendingCount None = (None, 0)
   \<and> syncOffline None = (None, Inr \<lparr>succeeded = 0, failed = 0\<rparr>)
   \<and> isOnline None"
  using uninitialized_facade_total
    [of "sample_env (Throws (Error ''Network request failed''))" sample_feedback]
  by simp

section \<open>After \<open>destroy\<close>\<close>

text \<open>
  C9, as amended. Once \<open>init\<close> has subscribed the two handlers and \<open>destroy()\<close> has run,
  whatever happens next, a network-reachability change or an application-foreground
  transition initiates no \<open>sync()\<close> and schedules no settle timer, and both handlers stay
  unsubscribed. The only calls of \<open>sync()\<close> the monitor still makes come from settle
  timers that were scheduled before \<open>destroy()\<close>: each of them calls \<open>sync()\<close> when it
  elapses, since \<open>destroy()\<close> does not clear it.
\<close>

theorem after_destroy_only_pending_timers:
  assumes "unsubscribeNetInfo (offline_queue r)" and "appStateSubscription (offline_queue r)"
  shows "sync_requests (run evs (destroy r))
           = sync_requests r @ replicate (min (timers r) (count_list evs TimerElapsed)) FromSettleTimer
       \<and> timers (run evs (destroy r)) = timers r - count_list evs TimerElapsed
       \<and> \<not> netInfo_listening (run evs (destroy r))
       \<and> \<not> appState_listening (run evs (destroy r))"
  using run_unsubscribed [OF destroy_unsubscribes [OF assms], of evs]
  by (simp add: destroy_frame)

theorem after_destroy_only_pending_timers_witness:
  "sync_requests
     (run [AppStateChanged Active, NetInfoChanged (Some False), NetInfoChanged (Some True),
           TimerElapsed, TimerElapsed] (destroy back_online))
     = [FromSettleTimer]
   \<and> timers
     (run [AppStateChanged Active, NetInfoChanged (Some False), NetInfoChanged (Some True),
           TimerElapsed, TimerElapsed] (destroy back_online)) = 0
   \<and> \<not> netInfo_listening
     (run [AppStateChanged Active, NetInfoChanged (Some False), NetInfoChanged (Some True),
           TimerElapsed, TimerElapsed] (destroy back_online))
   \<and> \<not> appState_listening
     (run [AppStateChanged Active, NetInfoChanged (Some False), NetInfoChanged (Some True),
           TimerElapsed, TimerElapsed] (destroy back_online))"
  using after_destroy_only_pending_timers [OF back_online_state(1,2),
      of "[AppStateChanged Active, NetInfoChanged (Some False), NetInfoChanged (Some True),
           TimerElapsed, TimerElapsed]"]
  by (simp add: back_online_state)

text \<open>
  C9 as stated fails: the network comes back, which schedules the settle timer; then
  \<open>destroy()\<close> runs; then the timer elapses and calls \<open>sync()\<close>, which delivers the queued
  record.
\<close>

theorem settle_timer_after_destroy_counterexample:
  "sync_requests (destroy back_online) = []
   \<and> \<not> netInfo_listening (destroy back_online)
   \<and> \<not> appState_listening (destroy back_online)
   \<and> pending (offline_queue (destroy back_online)) = [sample_item ''1700000000500-k3x9'' 0]
   \<and> sync_requests (run [TimerElapsed] (destroy back_online)) = [FromSettleTimer]
   \<and> deliveries (calls (offline_queue (run [TimerElapsed] (destroy back_online))))
       = [sample_item ''1700000000500-k3x9'' 0]
   \<and> pending (offline_queue (run [TimerElapsed] (destroy back_online))) = []"
  by (simp add: back_online_def started_offline_def monitor_defs model_defs sample_item_def)

end
